theory Spec2Isabelle
  imports Complex_Main
begin

section \<open>Data model of the slicing simulation\<close>

text \<open>
  The simulation (src/simulation.py) keeps one Simulation object whose methods mutate
  it in place. Each method becomes a function from the state to the new state; a
  method that can raise returns \<open>error + simulation\<close>, with \<open>Inl\<close> the exception.
  Logical times are Python floats; they are modelled as exact reals (the engine only
  adds, divides and compares them). Pilot counts are Python ints.
\<close>

datatype error = KeyError | IndexError | ZeroDivisionError | EmptyClock

text \<open>The class constants of Simulation.\<close>

definition URLLC :: nat where "URLLC = 0"
definition mMTC :: nat where "mMTC = 1"
definition DEPARTURE :: nat where "DEPARTURE = 2"
definition URLLC_ARRIVAL :: nat where "URLLC_ARRIVAL = 3"
definition mMTC_ARRIVAL :: nat where "mMTC_ARRIVAL = 4"

text \<open>
  Modelled from the spec: the Event class (not part of the sources at hand), with the
  fields the engine reads: \<open>event.type\<close>, \<open>event.time\<close>, \<open>event.dead_time\<close>,
  \<open>event.node_id\<close> and the counter given to \<open>push\<close>. For a departure event the
  deadline, the node and the counter are unset and the engine never reads them; they
  hold 0 there.
\<close>

record event =
  ev_type :: nat
  ev_time :: real
  dead_time :: real
  node_id :: nat
  counter :: int

text \<open>
  Modelled from the spec: the trace sink (the Trace class and \<open>Event.get_entry\<close> are
  not part of the sources at hand). \<open>event.get_entry(time, success)\<close> builds what
  \<open>trace.write_trace\<close> receives: the request, the service time and the success flag;
  the sink is the list of the entries written so far, oldest first.
\<close>

record entry =
  entry_event :: event
  entry_time :: real
  success :: bool

definition get_entry :: "event \<Rightarrow> real \<Rightarrow> bool \<Rightarrow> entry" where
  "get_entry e t ok = \<lparr>entry_event = e, entry_time = t, success = ok\<rparr>"

text \<open>
  Modelled from the spec: the inter-arrival generator of a node (not part of the
  sources at hand), an opaque producer of delays: one initial draw and a sequence of
  next draws, of which \<open>drawn\<close> have been consumed.
\<close>

record generator =
  init_draw :: real
  draws :: "nat \<Rightarrow> real"
  drawn :: nat

definition get_init :: "generator \<Rightarrow> real" where
  "get_init g = init_draw g"

definition get_next :: "generator \<Rightarrow> real \<times> generator" where
  "get_next g = (draws g (drawn g), g\<lparr>drawn := drawn g + 1\<rparr>)"

text \<open>
  A node as the engine uses it: the cost \<open>pilot_samples\<close> and the deadline span of
  its profile (src/slices/node.py), its generator, and the two flags \<open>active\<close> and
  \<open>assigned\<close> that the engine stores on the node. A slice has its type and its pool.
\<close>

record node =
  pilot_samples :: int
  deadline :: real
  active :: bool
  assigned :: bool
  event_generator :: generator

record slice =
  slice_type :: nat
  pool :: "node list"

text \<open>
  Modelled from the spec: \<open>Slice.get_node\<close> (the Slice class is not part of the sources
  at hand). A slice is an ordered, fixed-size pool of nodes and the index into the pool
  is the requester id of an event; indexing a Python list out of range raises
  IndexError.
\<close>

definition get_node :: "slice \<Rightarrow> nat \<Rightarrow> error + node" where
  "get_node sl i = (if i < length (pool sl) then Inr (pool sl ! i) else Inl IndexError)"

definition set_node :: "slice \<Rightarrow> nat \<Rightarrow> node \<Rightarrow> slice" where
  "set_node sl i n = sl\<lparr>pool := (pool sl)[i := n]\<rparr>"

subsection \<open>Stats (src/utilities/stats.py)\<close>

text \<open>
  A Stats object holds its private file handle and the dictionary \<open>stats\<close>.
\<close>

record Stats =
  stats_file :: string
  stats :: "string \<rightharpoonup> int"

definition Stats_init :: "string \<Rightarrow> Stats" where
  "Stats_init stats_file_path =
     \<lparr>stats_file = stats_file_path,
      stats = [''config_no'' \<mapsto> 0, ''no_urllc_arrivals'' \<mapsto> 0, ''no_mmtc_arrivals'' \<mapsto> 0,
               ''no_missed_urllc'' \<mapsto> 0, ''no_missed_mmtc'' \<mapsto> 0]\<rparr>"

text \<open>
  \<open>clear_stats\<close>: for every key of the dictionary other than \<open>'config_no'\<close>, store 0.
\<close>

definition clear_stats :: "Stats \<Rightarrow> Stats" where
  "clear_stats st =
     st\<lparr>stats := (\<lambda>key. case stats st key of
                            None \<Rightarrow> None
                          | Some v \<Rightarrow> if \<not> key = ''config_no'' then Some 0 else Some v)\<rparr>"

text \<open>\<open>self.stats.stats[key] += 1\<close>: a missing key raises KeyError.\<close>

definition stats_incr :: "string \<Rightarrow> Stats \<Rightarrow> error + Stats" where
  "stats_incr key st =
     (case stats st key of
        None \<Rightarrow> Inl KeyError
      | Some v \<Rightarrow> Inr (st\<lparr>stats := (stats st)(key \<mapsto> v + 1)\<rparr>))"


subsection \<open>The simulation state\<close>

text \<open>
  The fields of a Simulation object. \<open>send_queue\<close> is the dictionary with the two keys
  \<open>'_URLLC'\<close> and \<open>'_mMTC'\<close>, in this order, and \<open>Slices\<close> the two-element list
  indexed by the constants \<open>_URLLC\<close> and \<open>_mMTC\<close>; each is a pair of fields here.
  \<open>stats_obj\<close> is \<open>self.stats\<close>, whose dictionary is \<open>self.stats.stats\<close>.
\<close>

record simulation =
  stats_obj :: Stats
  trace :: "entry list"
  time :: real
  no_pilots :: int
  simulation_length :: real
  frame_length :: real
  pilot_strategy :: string
  event_heap :: "event list"
  send_queue_URLLC :: "event list"
  send_queue_mMTC :: "event list"
  Slices_URLLC :: slice
  Slices_mMTC :: slice
  frame_counter :: real
  frame_loops :: real
  node_pointer :: nat

text \<open>
  Modelled from the spec: the event clock (the EventHeap class is not part of the
  sources at hand). It holds the pending events; \<open>push\<close> adds one and \<open>pop\<close> removes
  and returns the event with the smallest time (the first such event on a tie), failing
  with EmptyClock when no event is left.
\<close>

definition push :: "event \<Rightarrow> event list \<Rightarrow> event list" where
  "push e h = h @ [e]"

definition pop :: "event list \<Rightarrow> error + (event \<times> event list)" where
  "pop h = (case h of
              [] \<Rightarrow> Inl EmptyClock
            | _ # _ \<Rightarrow> (let e = arg_min_list ev_time h in Inr (e, remove1 e h)))"

text \<open>
  Python's \<open>x % y\<close> on floats: the remainder has the sign of the divisor, and a zero
  divisor raises ZeroDivisionError. So does \<open>x / y\<close>. Both are taken on exact reals:
  they give what the floats give where operands and result are integers or other
  values a float holds exactly, and differ from the floats where the float operation
  rounds (\<open>0.3 / 0.1\<close>).
\<close>

definition py_mod :: "real \<Rightarrow> real \<Rightarrow> error + real" where
  "py_mod x y = (if y = 0 then Inl ZeroDivisionError else Inr (x - of_int \<lfloor>x / y\<rfloor> * y))"

definition py_div :: "real \<Rightarrow> real \<Rightarrow> error + real" where
  "py_div x y = (if y = 0 then Inl ZeroDivisionError else Inr (x / y))"

subsection \<open>Deadline expiry\<close>

text \<open>
  The body of the removal loop of \<open>__handle_expired_events\<close> for one event, without
  the deletion from the queue: it dispatches on the type of the event.
\<close>

definition expire_event :: "event \<Rightarrow> simulation \<Rightarrow> error + simulation" where
  "expire_event ev s =
     (if ev_type ev = URLLC_ARRIVAL then
        (case get_node (Slices_URLLC s) (node_id ev) of
           Inl err \<Rightarrow> Inl err
         | Inr n \<Rightarrow>
             (case stats_incr ''no_missed_urllc'' (stats_obj s) of
                Inl err \<Rightarrow> Inl err
              | Inr st \<Rightarrow>
                  Inr (s\<lparr>Slices_URLLC := set_node (Slices_URLLC s) (node_id ev) (n\<lparr>active := False\<rparr>),
                         stats_obj := st,
                         trace := trace s @ [get_entry ev (time s) False]\<rparr>)))
      else if ev_type ev = mMTC_ARRIVAL then
        (case get_node (Slices_mMTC s) (node_id ev) of
           Inl err \<Rightarrow> Inl err
         | Inr n \<Rightarrow>
             (case stats_incr ''no_missed_mmtc'' (stats_obj s) of
                Inl err \<Rightarrow> Inl err
              | Inr st \<Rightarrow>
                  Inr (s\<lparr>Slices_mMTC := set_node (Slices_mMTC s) (node_id ev) (n\<lparr>active := False\<rparr>),
                         stats_obj := st,
                         trace := trace s @ [get_entry ev (time s) False]\<rparr>)))
      else Inr s)"

text \<open>The indices collected by the scan: those whose event has \<open>dead_time < self.time\<close>.\<close>

definition remove_indices :: "real \<Rightarrow> event list \<Rightarrow> nat list" where
  "remove_indices t queue = filter (\<lambda>i. dead_time (queue ! i) < t) [0..<length queue]"

definition delete_index :: "nat \<Rightarrow> 'a list \<Rightarrow> 'a list" where
  "delete_index i xs = take i xs @ drop (Suc i) xs"

text \<open>
  The removal loop over the indices, in the order given: read \<open>queue[i]\<close>, handle the
  event, \<open>del queue[i]\<close>. The queue being edited is threaded beside the state.
\<close>

fun expire_loop :: "nat list \<Rightarrow> event list \<Rightarrow> simulation \<Rightarrow> error + (event list \<times> simulation)" where
  "expire_loop [] queue s = Inr (queue, s)"
| "expire_loop (i # is) queue s =
     (case expire_event (queue ! i) s of
        Inl err \<Rightarrow> Inl err
      | Inr s' \<Rightarrow> expire_loop is (delete_index i queue) s')"

text \<open>\<open>sorted(remove_indices, reverse=True)\<close> is the descending order of the indices.\<close>

definition expire_queue :: "event list \<Rightarrow> simulation \<Rightarrow> error + (event list \<times> simulation)" where
  "expire_queue queue s = expire_loop (rev (sort (remove_indices (time s) queue))) queue s"

definition handle_expired_events :: "simulation \<Rightarrow> error + simulation" where
  "handle_expired_events s =
     (case expire_queue (send_queue_URLLC s) s of
        Inl err \<Rightarrow> Inl err
      | Inr (q1, s1) \<Rightarrow>
          (case expire_queue (send_queue_mMTC s1) (s1\<lparr>send_queue_URLLC := q1\<rparr>) of
             Inl err \<Rightarrow> Inl err
           | Inr (q2, s2) \<Rightarrow> Inr (s2\<lparr>send_queue_mMTC := q2\<rparr>)))"

subsection \<open>Allocation policies\<close>

text \<open>
  The loops of the policies work on three local values: the remaining budget
  \<open>no_pilots\<close>, the send queue they remove from, and the trace they write to.
  \<open>list.remove(event)\<close> deletes the first element equal to the event.

  The deadline-ordered loop of \<open>__fist_come_first_served\<close>: it iterates over a sorted
  copy of the queue, subtracts the cost of the node of the event, serves the event when
  the budget stays non-negative and breaks otherwise (the cost stays subtracted).
\<close>

fun fcfs_loop ::
  "slice \<Rightarrow> real \<Rightarrow> event list \<Rightarrow> int \<times> event list \<times> entry list
     \<Rightarrow> error + (int \<times> event list \<times> entry list)" where
  "fcfs_loop sl t [] (np, queue, tr) = Inr (np, queue, tr)"
| "fcfs_loop sl t (ev # evs) (np, queue, tr) =
     (case get_node sl (node_id ev) of
        Inl err \<Rightarrow> Inl err
      | Inr n \<Rightarrow>
          (let np' = np - pilot_samples n in
           if np' \<ge> 0
           then fcfs_loop sl t evs (np', remove1 ev queue, tr @ [get_entry ev t True])
           else Inr (np', queue, tr)))"

definition fist_come_first_served :: "simulation \<Rightarrow> error + simulation" where
  "fist_come_first_served s =
     (let urllc_events = sort_key dead_time (send_queue_URLLC s);
          mmtc_events = send_queue_mMTC s
      in case fcfs_loop (Slices_URLLC s) (time s) urllc_events
                (no_pilots s, send_queue_URLLC s, trace s) of
           Inl err \<Rightarrow> Inl err
         | Inr (np, q1, tr1) \<Rightarrow>
             if np > 0 then
               (case fcfs_loop (Slices_mMTC s) (time s) (sort_key dead_time mmtc_events)
                       (np, send_queue_mMTC s, tr1) of
                  Inl err \<Rightarrow> Inl err
                | Inr (np2, q2, tr2) \<Rightarrow>
                    Inr (s\<lparr>send_queue_URLLC := q1, send_queue_mMTC := q2, trace := tr2\<rparr>))
             else Inr (s\<lparr>send_queue_URLLC := q1, trace := tr1\<rparr>))"

text \<open>
  The per-node loops of the queue-aware round robin. The inner loop runs over the
  events of one node (a fresh list); when the budget would go negative the source
  executes \<open>return\<close> (or \<open>break\<close> in \<open>__round_robin_half_queue_info\<close>), which
  \<open>Stopped\<close> records; \<open>Finished\<close> is the normal end of the loop.
\<close>

datatype 'a flow = Stopped 'a | Finished 'a

fun rrq_events ::
  "real \<Rightarrow> int \<Rightarrow> event list \<Rightarrow> int \<times> event list \<times> entry list
     \<Rightarrow> (int \<times> event list \<times> entry list) flow" where
  "rrq_events t cost [] (np, queue, tr) = Finished (np, queue, tr)"
| "rrq_events t cost (ev # evs) (np, queue, tr) =
     (let np' = np - cost in
      if np' \<ge> 0
      then rrq_events t cost evs (np', remove1 ev queue, tr @ [get_entry ev t True])
      else Stopped (np', queue, tr))"

text \<open>
  The outer loop over the pool. \<open>nodes.index(_node)\<close> is the position of the node: Node
  defines no equality, so Python compares the objects by identity. The nodes come
  paired with their positions.
\<close>

fun rrq_nodes ::
  "real \<Rightarrow> (nat \<times> node) list \<Rightarrow> int \<times> event list \<times> entry list
     \<Rightarrow> (int \<times> event list \<times> entry list) flow" where
  "rrq_nodes t [] (np, queue, tr) = Finished (np, queue, tr)"
| "rrq_nodes t ((ind, n) # ns) (np, queue, tr) =
     (case rrq_events t (pilot_samples n) (filter (\<lambda>e. node_id e = ind) queue) (np, queue, tr) of
        Stopped st \<Rightarrow> Stopped st
      | Finished st \<Rightarrow> rrq_nodes t ns st)"

text \<open>The same outer loop where the inner loop ends with \<open>break\<close>: the next node follows.\<close>

fun rrq_nodes_break ::
  "real \<Rightarrow> (nat \<times> node) list \<Rightarrow> int \<times> event list \<times> entry list
     \<Rightarrow> int \<times> event list \<times> entry list" where
  "rrq_nodes_break t [] (np, queue, tr) = (np, queue, tr)"
| "rrq_nodes_break t ((ind, n) # ns) (np, queue, tr) =
     (case rrq_events t (pilot_samples n) (filter (\<lambda>e. node_id e = ind) queue) (np, queue, tr) of
        Stopped st \<Rightarrow> rrq_nodes_break t ns st
      | Finished st \<Rightarrow> rrq_nodes_break t ns st)"

definition indexed_pool :: "slice \<Rightarrow> (nat \<times> node) list" where
  "indexed_pool sl = zip [0..<length (pool sl)] (pool sl)"

definition round_robin_queue_info :: "simulation \<Rightarrow> error + simulation" where
  "round_robin_queue_info s =
     (case rrq_nodes (time s) (indexed_pool (Slices_URLLC s))
             (no_pilots s, send_queue_URLLC s, trace s) of
        Stopped (np, q1, tr1) \<Rightarrow> Inr (s\<lparr>send_queue_URLLC := q1, trace := tr1\<rparr>)
      | Finished (np, q1, tr1) \<Rightarrow>
          if np > 0 then
            (case rrq_nodes (time s) (indexed_pool (Slices_mMTC s)) (np, send_queue_mMTC s, tr1) of
               Stopped (np2, q2, tr2) \<Rightarrow>
                 Inr (s\<lparr>send_queue_URLLC := q1, send_queue_mMTC := q2, trace := tr2\<rparr>)
             | Finished (np2, q2, tr2) \<Rightarrow>
                 Inr (s\<lparr>send_queue_URLLC := q1, send_queue_mMTC := q2, trace := tr2\<rparr>))
          else Inr (s\<lparr>send_queue_URLLC := q1, trace := tr1\<rparr>))"

text \<open>
  The class-B loop of \<open>__round_robin_queue_first_come_first_served\<close> and of
  \<open>__round_robin_no_queue_info_first_come_first_served\<close> iterates over the send queue
  itself, not over a copy, while the body removes from it. A Python list iterator
  holds an index: each round reads \<open>queue[i]\<close> if \<open>i < len(queue)\<close>, then moves to
  \<open>i + 1\<close>, whatever the body did to the list.
\<close>

function inplace_loop ::
  "slice \<Rightarrow> real \<Rightarrow> nat \<Rightarrow> int \<times> event list \<times> entry list
     \<Rightarrow> error + (int \<times> event list \<times> entry list)" where
  "inplace_loop sl t i (np, queue, tr) =
     (if i < length queue then
        (case get_node sl (node_id (queue ! i)) of
           Inl err \<Rightarrow> Inl err
         | Inr n \<Rightarrow>
             (if np - pilot_samples n \<ge> 0
              then inplace_loop sl t (i + 1)
                     (np - pilot_samples n, remove1 (queue ! i) queue,
                      tr @ [get_entry (queue ! i) t True])
              else Inr (np - pilot_samples n, queue, tr)))
      else Inr (np, queue, tr))"
  by pat_completeness auto
termination
  by (relation "measure (\<lambda>(sl, t, i, np, queue, tr). length queue - i)")
     (auto simp: length_remove1)

text \<open>
  The equation of \<open>inplace_loop\<close> calls itself under a condition only; it is unfolded
  on demand.
\<close>

declare inplace_loop.simps [simp del]

text \<open>
  \<open>mmtc_events.sort(key=lambda x: x.dead_time, reverse=True)\<close> sorts the queue itself,
  latest deadline first; Python's sort is stable, also when reversed.
\<close>

definition sort_reverse :: "event list \<Rightarrow> event list" where
  "sort_reverse queue = sort_key (\<lambda>x. - dead_time x) queue"

definition round_robin_queue_first_come_first_served :: "simulation \<Rightarrow> error + simulation" where
  "round_robin_queue_first_come_first_served s =
     (case rrq_nodes (time s) (indexed_pool (Slices_URLLC s))
             (no_pilots s, send_queue_URLLC s, trace s) of
        Stopped (np, q1, tr1) \<Rightarrow> Inr (s\<lparr>send_queue_URLLC := q1, trace := tr1\<rparr>)
      | Finished (np, q1, tr1) \<Rightarrow>
          if np > 0 then
            (case inplace_loop (Slices_mMTC s) (time s) 0
                    (np, sort_reverse (send_queue_mMTC s), tr1) of
               Inl err \<Rightarrow> Inl err
             | Inr (np2, q2, tr2) \<Rightarrow>
                 Inr (s\<lparr>send_queue_URLLC := q1, send_queue_mMTC := q2, trace := tr2\<rparr>))
          else Inr (s\<lparr>send_queue_URLLC := q1, trace := tr1\<rparr>))"


subsection \<open>The queue-unaware round robin and overlap resolution\<close>

text \<open>
  The grant loop over \<open>range(start_ind, len(pool))\<close>: every index of the range is in
  the pool, so \<open>get_node(i)\<close> does not raise here. A granted node advances
  \<open>node_pointer\<close> and gets \<open>assigned = True\<close>; the first node that does not fit has
  its cost added back and ends the loop.
\<close>

fun grant_loop :: "nat list \<Rightarrow> int \<times> nat \<times> slice \<Rightarrow> int \<times> nat \<times> slice" where
  "grant_loop [] (np, ptr, sl) = (np, ptr, sl)"
| "grant_loop (i # is) (np, ptr, sl) =
     (let n = pool sl ! i; np' = np - pilot_samples n in
      if np' \<ge> 0
      then grant_loop is (np', ptr + 1, set_node sl i (n\<lparr>assigned := True\<rparr>))
      else (np' + pilot_samples n, ptr, sl))"

text \<open>
  The common opening of the two RRN policies: advance \<open>frame_counter\<close> modulo
  \<open>frame_loops\<close>, reset \<open>node_pointer\<close> when the counter equals 1, and run the grant
  loop from the pointer. It returns the state and the local budget left.
\<close>

definition grant_pass :: "simulation \<Rightarrow> error + (simulation \<times> int)" where
  "grant_pass s =
     (case py_mod (frame_counter s + 1) (frame_loops s) of
        Inl err \<Rightarrow> Inl err
      | Inr fc \<Rightarrow>
          (let start_ind = (if fc = 1 then 0 else node_pointer s) in
           case grant_loop [start_ind..<length (pool (Slices_URLLC s))]
                  (no_pilots s, start_ind, Slices_URLLC s) of
             (np, ptr, sl) \<Rightarrow>
               Inr (s\<lparr>frame_counter := fc, node_pointer := ptr, Slices_URLLC := sl\<rparr>, np)))"

text \<open>
  \<open>__handle_send_queue\<close>. The filter for the events of assigned nodes calls
  \<open>get_node\<close> on every event of the queue, in order.
\<close>

fun filter_assigned :: "slice \<Rightarrow> event list \<Rightarrow> error + event list" where
  "filter_assigned sl [] = Inr []"
| "filter_assigned sl (e # es) =
     (case get_node sl (node_id e) of
        Inl err \<Rightarrow> Inl err
      | Inr n \<Rightarrow>
          (case filter_assigned sl es of
             Inl err \<Rightarrow> Inl err
           | Inr r \<Rightarrow> Inr (if assigned n then e # r else r)))"

text \<open>
  The loop over \<open>events_assigend\<close>, with the queue, the class-A slice, the trace and
  the list \<open>overlapped_event\<close>. \<open>events_from_same_node[0]\<close> raises IndexError on an
  empty list.
\<close>

fun overlap_loop ::
  "real \<Rightarrow> event list \<Rightarrow> event list \<Rightarrow> event list \<times> slice \<times> entry list \<times> event list
     \<Rightarrow> error + (event list \<times> slice \<times> entry list \<times> event list)" where
  "overlap_loop t events_assigend [] (queue, sl, tr, overlapped_event) =
     Inr (queue, sl, tr, overlapped_event)"
| "overlap_loop t events_assigend (ev # evs) (queue, sl, tr, overlapped_event) =
     (if ev \<in> set overlapped_event
      then overlap_loop t events_assigend evs (queue, sl, tr, overlapped_event)
      else
        (let events_from_same_node = filter (\<lambda>e. node_id e = node_id ev) events_assigend in
         if length events_from_same_node = 1 then
           (case get_node sl (node_id ev) of
              Inl err \<Rightarrow> Inl err
            | Inr n \<Rightarrow>
                overlap_loop t events_assigend evs
                  (remove1 ev queue, set_node sl (node_id ev) (n\<lparr>active := False\<rparr>),
                   tr @ [get_entry ev t True], overlapped_event))
         else
           (case get_node sl (node_id ev) of
              Inl err \<Rightarrow> Inl err
            | Inr n \<Rightarrow>
                (case sort_key dead_time events_from_same_node of
                   [] \<Rightarrow> Inl IndexError
                 | first # others \<Rightarrow>
                     overlap_loop t events_assigend evs
                       (remove1 first queue, set_node sl (node_id ev) (n\<lparr>active := True\<rparr>),
                        tr @ [get_entry first t True],
                        overlapped_event @ (first # others))))))"

definition handle_send_queue :: "simulation \<Rightarrow> error + simulation" where
  "handle_send_queue s =
     (case filter_assigned (Slices_URLLC s) (send_queue_URLLC s) of
        Inl err \<Rightarrow> Inl err
      | Inr events_assigend \<Rightarrow>
          (case overlap_loop (time s) events_assigend events_assigend
                  (send_queue_URLLC s, Slices_URLLC s, trace s, []) of
             Inl err \<Rightarrow> Inl err
           | Inr (queue, sl, tr, overlapped_event) \<Rightarrow>
               Inr (s\<lparr>send_queue_URLLC := queue, Slices_URLLC := sl, trace := tr\<rparr>)))"

definition round_robin_half_queue_info :: "simulation \<Rightarrow> error + simulation" where
  "round_robin_half_queue_info s =
     (case grant_pass s of
        Inl err \<Rightarrow> Inl err
      | Inr (s1, np) \<Rightarrow>
          if np > 0 then
            (case rrq_nodes_break (time s1) (indexed_pool (Slices_mMTC s1))
                    (np, send_queue_mMTC s1, trace s1) of
               (np2, q2, tr2) \<Rightarrow> handle_send_queue (s1\<lparr>send_queue_mMTC := q2, trace := tr2\<rparr>))
          else handle_send_queue s1)"

definition round_robin_no_queue_info_first_come_first_served :: "simulation \<Rightarrow> error + simulation" where
  "round_robin_no_queue_info_first_come_first_served s =
     (case grant_pass s of
        Inl err \<Rightarrow> Inl err
      | Inr (s1, np) \<Rightarrow>
          if np > 0 then
            (case inplace_loop (Slices_mMTC s1) (time s1) 0
                    (np, sort_reverse (send_queue_mMTC s1), trace s1) of
               Inl err \<Rightarrow> Inl err
             | Inr (np2, q2, tr2) \<Rightarrow> handle_send_queue (s1\<lparr>send_queue_mMTC := q2, trace := tr2\<rparr>))
          else handle_send_queue s1)"

subsection \<open>The engine\<close>

text \<open>
  \<open>strategy_mapping\<close> is the dictionary from the five policy names to the methods;
  \<open>__assign_pilots\<close> looks the configured name up in it when it is called.
\<close>

definition strategy_mapping :: "string \<rightharpoonup> (simulation \<Rightarrow> error + simulation)" where
  "strategy_mapping =
     [''FCFS_FCFS'' \<mapsto> fist_come_first_served,
      ''RRQ_RRQ'' \<mapsto> round_robin_queue_info,
      ''RRQ_FCFS'' \<mapsto> round_robin_queue_first_come_first_served,
      ''RRN_FCFS'' \<mapsto> round_robin_no_queue_info_first_come_first_served,
      ''RRN_RRQ'' \<mapsto> round_robin_half_queue_info]"

definition assign_pilots :: "simulation \<Rightarrow> error + simulation" where
  "assign_pilots s =
     (case strategy_mapping (pilot_strategy s) of
        None \<Rightarrow> Inl KeyError
      | Some policy \<Rightarrow> policy s)"

definition departure_event :: "real \<Rightarrow> event" where
  "departure_event t = \<lparr>ev_type = DEPARTURE, ev_time = t, dead_time = 0, node_id = 0, counter = 0\<rparr>"

definition handle_departure :: "simulation \<Rightarrow> error + simulation" where
  "handle_departure s =
     (case handle_expired_events s of
        Inl err \<Rightarrow> Inl err
      | Inr s1 \<Rightarrow>
          (case assign_pilots s1 of
             Inl err \<Rightarrow> Inl err
           | Inr s2 \<Rightarrow>
               Inr (s2\<lparr>event_heap :=
                          push (departure_event (time s2 + frame_length s2)) (event_heap s2)\<rparr>)))"

text \<open>
  The two arrival handlers: count the arrival, put the event at the front of the send
  queue, mark the node active, draw its next delay and push the next arrival.
\<close>

definition handle_urllc_arrival :: "simulation \<Rightarrow> event \<Rightarrow> error + simulation" where
  "handle_urllc_arrival s ev =
     (case stats_incr ''no_urllc_arrivals'' (stats_obj s) of
        Inl err \<Rightarrow> Inl err
      | Inr st \<Rightarrow>
          (case get_node (Slices_URLLC s) (node_id ev) of
             Inl err \<Rightarrow> Inl err
           | Inr n \<Rightarrow>
               (case get_next (event_generator n) of
                  (next_arrival, g) \<Rightarrow>
                    (case stats st ''no_urllc_arrivals'' of
                       None \<Rightarrow> Inl KeyError
                     | Some c \<Rightarrow>
                         Inr (s\<lparr>stats_obj := st,
                                send_queue_URLLC := ev # send_queue_URLLC s,
                                Slices_URLLC := set_node (Slices_URLLC s) (node_id ev)
                                   (n\<lparr>active := True, event_generator := g\<rparr>),
                                event_heap := push
                                   \<lparr>ev_type = URLLC_ARRIVAL, ev_time = time s + next_arrival,
                                    dead_time = time s + next_arrival + deadline n,
                                    node_id = node_id ev, counter = c\<rparr> (event_heap s)\<rparr>)))))"

definition handle_mmtc_arrival :: "simulation \<Rightarrow> event \<Rightarrow> error + simulation" where
  "handle_mmtc_arrival s ev =
     (case stats_incr ''no_mmtc_arrivals'' (stats_obj s) of
        Inl err \<Rightarrow> Inl err
      | Inr st \<Rightarrow>
          (case get_node (Slices_mMTC s) (node_id ev) of
             Inl err \<Rightarrow> Inl err
           | Inr n \<Rightarrow>
               (case get_next (event_generator n) of
                  (next_arrival, g) \<Rightarrow>
                    (case stats st ''no_mmtc_arrivals'' of
                       None \<Rightarrow> Inl KeyError
                     | Some c \<Rightarrow>
                         Inr (s\<lparr>stats_obj := st,
                                send_queue_mMTC := ev # send_queue_mMTC s,
                                Slices_mMTC := set_node (Slices_mMTC s) (node_id ev)
                                   (n\<lparr>active := True, event_generator := g\<rparr>),
                                event_heap := push
                                   \<lparr>ev_type = mMTC_ARRIVAL, ev_time = time s + next_arrival,
                                    dead_time = time s + next_arrival + deadline n,
                                    node_id = node_id ev, counter = c\<rparr> (event_heap s)\<rparr>)))))"

text \<open>\<open>__handle_event\<close> looks the handler up by the type of the event.\<close>

definition handle_event :: "simulation \<Rightarrow> event \<Rightarrow> error + simulation" where
  "handle_event s ev =
     (if ev_type ev = URLLC_ARRIVAL then handle_urllc_arrival s ev
      else if ev_type ev = mMTC_ARRIVAL then handle_mmtc_arrival s ev
      else if ev_type ev = DEPARTURE then handle_departure s
      else Inl KeyError)"

text \<open>
  \<open>__initialize_nodes\<close> for one slice: the first arrival of every node of the pool,
  in pool order. The arguments are the type of the slice, the clock, the nodes with
  their positions, and the statistics and the event clock being filled.
\<close>

fun initialize_nodes ::
  "nat \<Rightarrow> real \<Rightarrow> (nat \<times> node) list \<Rightarrow> Stats \<times> event list \<Rightarrow> error + (Stats \<times> event list)" where
  "initialize_nodes ty t [] (st, heap) = Inr (st, heap)"
| "initialize_nodes ty t ((ind, n) # ns) (st, heap) =
     (let next_arrival = get_init (event_generator n);
          key = (if ty = URLLC then ''no_urllc_arrivals'' else ''no_mmtc_arrivals'')
      in case stats_incr key st of
           Inl err \<Rightarrow> Inl err
         | Inr st' \<Rightarrow>
             (case stats st' key of
                None \<Rightarrow> Inl KeyError
              | Some c \<Rightarrow>
                  initialize_nodes ty t ns
                    (st', push \<lparr>ev_type = ty + 3, ev_time = t + next_arrival,
                                dead_time = t + next_arrival + deadline n,
                                node_id = ind, counter = c\<rparr> heap)))"

text \<open>
  The configuration dictionary as the constructor reads it, and the constructor. The
  two slices are built by the Slice class from files that are not part of the sources
  at hand; they are passed in as built.
\<close>

record config =
  cfg_no_pilots :: int
  cfg_simulation_length :: real
  cfg_frame_length :: real
  cfg_strategy :: string

definition Simulation_init ::
  "config \<Rightarrow> Stats \<Rightarrow> entry list \<Rightarrow> slice \<Rightarrow> slice \<Rightarrow> string option \<Rightarrow> error + simulation" where
  "Simulation_init cfg st tr urllc mmtc scheduler =
     (case get_node urllc 0 of
        Inl err \<Rightarrow> Inl err
      | Inr n0 \<Rightarrow>
          (case py_div (deadline n0) (cfg_frame_length cfg) of
             Inl err \<Rightarrow> Inl err
           | Inr loops \<Rightarrow>
               (case initialize_nodes (slice_type urllc) 0 (indexed_pool urllc) (st, []) of
                  Inl err \<Rightarrow> Inl err
                | Inr (st1, heap1) \<Rightarrow>
                    (case initialize_nodes (slice_type mmtc) 0 (indexed_pool mmtc) (st1, heap1) of
                       Inl err \<Rightarrow> Inl err
                     | Inr (st2, heap2) \<Rightarrow>
                         Inr \<lparr>stats_obj = st2, trace = tr, time = 0,
                              no_pilots = cfg_no_pilots cfg,
                              simulation_length = cfg_simulation_length cfg,
                              frame_length = cfg_frame_length cfg,
                              pilot_strategy = (case scheduler of Some name \<Rightarrow> name
                                                | None \<Rightarrow> cfg_strategy cfg),
                              event_heap = push (departure_event (0 + cfg_frame_length cfg)) heap2,
                              send_queue_URLLC = [], send_queue_mMTC = [],
                              Slices_URLLC = urllc, Slices_mMTC = mmtc,
                              frame_counter = 0, frame_loops = loops, node_pointer = 0\<rparr>))))"

text \<open>
  One round of the loop of \<open>run\<close>: pop the next event, advance the clock to its time,
  handle it. \<open>run\<close> repeats the round while the clock is before the horizon; the loop
  need not end, so it runs on fuel and \<open>None\<close> means the fuel ran out.
\<close>

definition step :: "simulation \<Rightarrow> error + simulation" where
  "step s =
     (case pop (event_heap s) of
        Inl err \<Rightarrow> Inl err
      | Inr (next_event, heap) \<Rightarrow>
          handle_event (s\<lparr>event_heap := heap, time := ev_time next_event\<rparr>) next_event)"

fun run :: "nat \<Rightarrow> simulation \<Rightarrow> (error + simulation) option" where
  "run 0 s = (if time s < simulation_length s then None else Some (Inr s))"
| "run (Suc fuel) s =
     (if time s < simulation_length s then
        (case step s of
           Inl err \<Rightarrow> Some (Inl err)
         | Inr s' \<Rightarrow> run fuel s')
      else Some (Inr s))"


subsection \<open>Concrete inputs\<close>

text \<open>
  Builders for the concrete states at which the theorems below are evaluated: a node
  with a cost and a deadline span (idle, unassigned, drawing the delay 1 forever), a
  queued arrival of a class with its node, deadline and sequence number, and a
  simulation at a clock reading with a policy, a budget, the two pools and the two
  send queues (frame length 1, superframe of 4 frames, counters and cursor at 0).
\<close>

definition mk_node :: "int \<Rightarrow> real \<Rightarrow> node" where
  "mk_node cost dl =
     \<lparr>pilot_samples = cost, deadline = dl, active = False, assigned = False,
      event_generator = \<lparr>init_draw = 1, draws = (\<lambda>k. 1), drawn = 0\<rparr>\<rparr>"

definition arrival :: "nat \<Rightarrow> nat \<Rightarrow> real \<Rightarrow> int \<Rightarrow> event" where
  "arrival ty i dl c = \<lparr>ev_type = ty, ev_time = 0, dead_time = dl, node_id = i, counter = c\<rparr>"

definition mk_sim ::
  "real \<Rightarrow> string \<Rightarrow> int \<Rightarrow> node list \<Rightarrow> node list \<Rightarrow> event list \<Rightarrow> event list \<Rightarrow> simulation" where
  "mk_sim t policy budget urllc_pool mmtc_pool urllc_queue mmtc_queue =
     \<lparr>stats_obj = Stats_init ''stats.csv'', trace = [], time = t, no_pilots = budget,
      simulation_length = 100, frame_length = 1, pilot_strategy = policy,
      event_heap = [departure_event (t + 1)],
      send_queue_URLLC = urllc_queue, send_queue_mMTC = mmtc_queue,
      Slices_URLLC = \<lparr>slice_type = URLLC, pool = urllc_pool\<rparr>,
      Slices_mMTC = \<lparr>slice_type = mMTC, pool = mmtc_pool\<rparr>,
      frame_counter = 0, frame_loops = 4, node_pointer = 0\<rparr>"

text \<open>What a pass served: the events of the successful entries of a trace, in order.\<close>

definition served :: "entry list \<Rightarrow> event list" where
  "served tr = map entry_event (filter success tr)"


text \<open>
  The cost of a served event: the \<open>pilot_samples\<close> of its node, in the pool of its
  class.
\<close>

definition event_cost :: "simulation \<Rightarrow> event \<Rightarrow> int" where
  "event_cost s e =
     (case get_node (if ev_type e = URLLC_ARRIVAL then Slices_URLLC s else Slices_mMTC s)
             (node_id e) of
        Inl err \<Rightarrow> 0
      | Inr n \<Rightarrow> pilot_samples n)"


subsection \<open>The two-class pass in closed form\<close>

text \<open>
  What a strict-priority pass over two ordered lists of requests amounts to, written
  without loops. \<open>fit_count budget costs\<close> is the number of leading requests that
  are served: each cost is subtracted in turn and the count stops at the first cost
  that would make the budget negative. \<open>serve_all\<close> removes the served events from
  a queue, \<open>successes\<close> are their trace entries.
\<close>

fun fit_count :: "int \<Rightarrow> int list \<Rightarrow> nat" where
  "fit_count budget [] = 0"
| "fit_count budget (c # cs) =
     (if budget - c \<ge> 0 then Suc (fit_count (budget - c) cs) else 0)"

fun fit_budget :: "int \<Rightarrow> int list \<Rightarrow> int" where
  "fit_budget budget [] = budget"
| "fit_budget budget (c # cs) =
     (if budget - c \<ge> 0 then fit_budget (budget - c) cs else budget - c)"


definition node_cost :: "slice \<Rightarrow> event \<Rightarrow> int" where
  "node_cost sl e = pilot_samples (pool sl ! node_id e)"

definition serve_all :: "event list \<Rightarrow> event list \<Rightarrow> event list" where
  "serve_all evs queue = fold remove1 evs queue"

definition successes :: "real \<Rightarrow> event list \<Rightarrow> entry list" where
  "successes t evs = map (\<lambda>e. get_entry e t True) evs"

text \<open>
  The pass over the class-A requests \<open>as\<close> and the class-B requests \<open>bs\<close>, each in
  its serving order: class A is served while the budget allows; class B is served the
  same way with what is left, but only when every class-A request was served and the
  rest of the budget is positive.
\<close>

definition class_A_served :: "simulation \<Rightarrow> event list \<Rightarrow> event list" where
  "class_A_served s as =
     take (fit_count (no_pilots s) (map (node_cost (Slices_URLLC s)) as)) as"

definition leftover :: "simulation \<Rightarrow> event list \<Rightarrow> int" where
  "leftover s as =
     no_pilots s - sum_list (map (node_cost (Slices_URLLC s)) (class_A_served s as))"

definition class_B_served :: "simulation \<Rightarrow> event list \<Rightarrow> event list \<Rightarrow> event list" where
  "class_B_served s as bs =
     (if length (class_A_served s as) = length as \<and> leftover s as > 0
      then take (fit_count (leftover s as) (map (node_cost (Slices_mMTC s)) bs)) bs
      else [])"

definition priority_pass :: "event list \<Rightarrow> event list \<Rightarrow> simulation \<Rightarrow> simulation" where
  "priority_pass as bs s =
     s\<lparr>send_queue_URLLC := serve_all (class_A_served s as) (send_queue_URLLC s),
       send_queue_mMTC := serve_all (class_B_served s as bs) (send_queue_mMTC s),
       trace := trace s @ successes (time s) (class_A_served s as @ class_B_served s as bs)\<rparr>"

text \<open>
  The queued requests of a class in pool order: node after node, the requests of each
  node in queue order. Requests of no node of the pool are left out.
\<close>

definition group_requests :: "nat list \<Rightarrow> event list \<Rightarrow> event list" where
  "group_requests inds queue = concat (map (\<lambda>ind. filter (\<lambda>e. node_id e = ind) queue) inds)"

definition requests_in_pool_order :: "slice \<Rightarrow> event list \<Rightarrow> event list" where
  "requests_in_pool_order sl queue = group_requests [0..<length (pool sl)] queue"

text \<open>
  Scenario A of the specification with one class-B request added: budget 5, two class-A
  requests of cost 3 with deadlines 10 and 8, one class-B request of cost 1. Scenario B:
  budget 4, class-A node 0 with two queued requests and node 1 with one, each of cost 2.
\<close>

definition scenario_A :: simulation where
  "scenario_A =
     mk_sim 1 ''FCFS_FCFS'' 5 [mk_node 3 4, mk_node 3 4] [mk_node 1 20]
       [arrival URLLC_ARRIVAL 0 10 1, arrival URLLC_ARRIVAL 1 8 2] [arrival mMTC_ARRIVAL 0 30 1]"

definition scenario_B :: simulation where
  "scenario_B =
     mk_sim 1 ''RRQ_RRQ'' 4 [mk_node 2 4, mk_node 2 4] []
       [arrival URLLC_ARRIVAL 0 10 3, arrival URLLC_ARRIVAL 1 8 2, arrival URLLC_ARRIVAL 0 8 1] []"


text \<open>
  A run configured with a policy name that is not in \<open>strategy_mapping\<close>: frame length
  2, one class-A node whose first arrival comes at time 1.
\<close>

definition unknown_policy_init :: "error + simulation" where
  "unknown_policy_init =
     Simulation_init
       \<lparr>cfg_no_pilots = 4, cfg_simulation_length = 10, cfg_frame_length = 2, cfg_strategy = ''XYZ''\<rparr>
       (Stats_init ''stats.csv'') []
       \<lparr>slice_type = URLLC, pool = [mk_node 1 4]\<rparr> \<lparr>slice_type = mMTC, pool = []\<rparr> None"

text \<open>The same run with the horizon 1, which the arrival at time 1 reaches.\<close>

definition unknown_policy_short_init :: "error + simulation" where
  "unknown_policy_short_init =
     Simulation_init
       \<lparr>cfg_no_pilots = 4, cfg_simulation_length = 1, cfg_frame_length = 2, cfg_strategy = ''XYZ''\<rparr>
       (Stats_init ''stats.csv'') []
       \<lparr>slice_type = URLLC, pool = [mk_node 1 4]\<rparr> \<lparr>slice_type = mMTC, pool = []\<rparr> None"

text \<open>
  The frame-boundary events pending in the clock, and what holds between two states of
  a run when no frame boundary was handled in between: the policy name and the trace
  are the same and the same frame-boundary events are pending.
\<close>

definition frame_boundaries :: "event list \<Rightarrow> event list" where
  "frame_boundaries heap = filter (\<lambda>e. ev_type e = DEPARTURE) heap"

definition no_frame_boundary_handled :: "simulation \<Rightarrow> simulation \<Rightarrow> bool" where
  "no_frame_boundary_handled s s' =
     (pilot_strategy s' = pilot_strategy s \<and> trace s' = trace s
      \<and> frame_boundaries (event_heap s') = frame_boundaries (event_heap s))"


subsection \<open>Expiry in closed form\<close>

text \<open>
  What the expiry of one queue amounts to: the events of the queue whose deadline is
  strictly before the clock, the events that stay, the events handled one after the
  other, and the pool with the \<open>active\<close> flag cleared at a set of positions.
\<close>

fun expire_all :: "event list \<Rightarrow> simulation \<Rightarrow> error + simulation" where
  "expire_all [] s = Inr s"
| "expire_all (ev # evs) s =
     (case expire_event ev s of Inl err \<Rightarrow> Inl err | Inr s' \<Rightarrow> expire_all evs s')"

definition expired :: "real \<Rightarrow> event list \<Rightarrow> event list" where
  "expired t queue = filter (\<lambda>e. dead_time e < t) queue"

definition unexpired :: "real \<Rightarrow> event list \<Rightarrow> event list" where
  "unexpired t queue = filter (\<lambda>e. \<not> dead_time e < t) queue"

definition deactivate :: "nat set \<Rightarrow> slice \<Rightarrow> slice" where
  "deactivate I sl =
     sl\<lparr>pool := map (\<lambda>i. if i \<in> I then (pool sl ! i)\<lparr>active := False\<rparr> else pool sl ! i)
                  [0..<length (pool sl)]\<rparr>"

text \<open>
  Scenario C of the specification: a class-B request with deadline 5 is still queued at
  the frame boundary at time 6.
\<close>

definition scenario_C :: simulation where
  "scenario_C =
     mk_sim 6 ''FCFS_FCFS'' 5 [mk_node 3 4] [mk_node 1 20] [] [arrival mMTC_ARRIVAL 0 5 1]"


subsection \<open>Overlap resolution, node by node\<close>

text \<open>
  The requests of one node in a list of events; the request served from a group of
  pending requests of one node, as a list of at most one element: the first of the
  group in ascending deadline order; the live pending class-A requests of node \<open>i\<close>.
\<close>

definition same_node :: "nat \<Rightarrow> event list \<Rightarrow> event list" where
  "same_node i evs = filter (\<lambda>e. node_id e = i) evs"

definition earliest :: "event list \<Rightarrow> event list" where
  "earliest evs = take 1 (sort_key dead_time evs)"

definition pending :: "simulation \<Rightarrow> nat \<Rightarrow> event list" where
  "pending s i = same_node i (send_queue_URLLC s)"

text \<open>
  The invariant of the loop of \<open>__handle_send_queue\<close> over \<open>events_assigend\<close>
  (\<open>EA\<close>), started from the queue \<open>q0\<close>, the slice \<open>sl0\<close> and the trace \<open>tr0\<close>,
  when the nodes in \<open>D\<close> have been handled: the pool keeps its size, the overlapped
  events are those of the handled nodes with more than one event, each handled node
  has lost its earliest request from the queue and got one trace entry for it, and its
  \<open>active\<close> flag tells whether it had more than one event; the other nodes are
  untouched.
\<close>

definition overlap_inv ::
  "real \<Rightarrow> event list \<Rightarrow> event list \<Rightarrow> slice \<Rightarrow> entry list \<Rightarrow> nat set
     \<Rightarrow> event list \<times> slice \<times> entry list \<times> event list \<Rightarrow> bool" where
  "overlap_inv t EA q0 sl0 tr0 D st =
     (case st of (q, sl, tr, ov) \<Rightarrow>
        length (pool sl) = length (pool sl0)
      \<and> set ov = {e \<in> set EA. node_id e \<in> D \<and> length (same_node (node_id e) EA) \<noteq> 1}
      \<and> (\<forall>i. same_node i q =
                (if i \<in> D then serve_all (earliest (same_node i EA)) (same_node i q0)
                 else same_node i q0))
      \<and> (\<exists>S. tr = tr0 @ successes t S
              \<and> (\<forall>i. same_node i S = (if i \<in> D then earliest (same_node i EA) else [])))
      \<and> (\<forall>i<length (pool sl0).
             pool sl ! i =
               (if i \<in> D then (pool sl0 ! i)\<lparr>active := (length (same_node i EA) \<noteq> 1)\<rparr>
                else pool sl0 ! i)))"

text \<open>
  Scenario D of the specification: node 0 is assigned and has two live pending requests,
  with deadlines 12 and 9.
\<close>

definition scenario_D :: simulation where
  "scenario_D =
     mk_sim 5 ''RRN_FCFS'' 2 [(mk_node 1 4)\<lparr>assigned := True\<rparr>] []
       [arrival URLLC_ARRIVAL 0 12 2, arrival URLLC_ARRIVAL 0 9 1] []"


section \<open>Stats.clear\_stats\<close>

text \<open>
  Claim C10. For every Stats object, \<open>clear_stats\<close> sets every counter of the stats
  dictionary to 0 except the \<open>config_no\<close> entry, which keeps its value; the key set is
  unchanged and no other field of the object is modified.
\<close>

theorem clear_stats_frame:
  "(\<forall>key v. stats st key = Some v \<longrightarrow>
        stats (clear_stats st) key = Some (if key = ''config_no'' then v else 0))
   \<and> dom (stats (clear_stats st)) = dom (stats st)
   \<and> stats_file (clear_stats st) = stats_file st
   \<and> Stats.more (clear_stats st) = Stats.more st"
  by (auto simp: clear_stats_def split: option.splits if_splits)

theorem clear_stats_frame_witness:
  "stats (clear_stats ((Stats_init ''s.csv'')\<lparr>stats := [''config_no'' \<mapsto> 7, ''no_missed_mmtc'' \<mapsto> 3]\<rparr>))
       ''config_no'' = Some 7
   \<and> stats (clear_stats ((Stats_init ''s.csv'')\<lparr>stats := [''config_no'' \<mapsto> 7, ''no_missed_mmtc'' \<mapsto> 3]\<rparr>))
       ''no_missed_mmtc'' = Some 0"
  using clear_stats_frame [of "(Stats_init ''s.csv'')\<lparr>stats := [''config_no'' \<mapsto> 7, ''no_missed_mmtc'' \<mapsto> 3]\<rparr>"]
  by simp

section \<open>The loops in closed form\<close>

lemmas input_defs = mk_sim_def mk_node_def arrival_def Stats_init_def get_entry_def served_def
  get_node_def set_node_def URLLC_def mMTC_def URLLC_ARRIVAL_def mMTC_ARRIVAL_def DEPARTURE_def
  indexed_pool_def sort_reverse_def

text \<open>
  The budget a serving loop ends with: the last value of the local \<open>no_pilots\<close>, the
  cost of the first request that did not fit still subtracted.
\<close>

lemma fit_count_le: "fit_count b cs \<le> length cs"
  by (induction cs arbitrary: b) auto

lemma fit_budget_full: "fit_count b cs = length cs \<Longrightarrow> fit_budget b cs = b - sum_list cs"
  by (induction cs arbitrary: b) (auto split: if_splits)

lemma fit_budget_short: "fit_count b cs \<noteq> length cs \<Longrightarrow> fit_budget b cs < 0"
  by (induction cs arbitrary: b) (auto split: if_splits)

lemma fit_count_append:
  "fit_count b (xs @ ys) =
     (if fit_count b xs = length xs then length xs + fit_count (b - sum_list xs) ys
      else fit_count b xs)"
  by (induction xs arbitrary: b) (auto simp: algebra_simps)

lemma fit_budget_append:
  "fit_budget b (xs @ ys) =
     (if fit_count b xs = length xs then fit_budget (b - sum_list xs) ys
      else fit_budget b xs)"
  by (induction xs arbitrary: b) (auto simp: algebra_simps)

lemma fcfs_loop_eq:
  "\<forall>e\<in>set evs. node_id e < length (pool sl) \<Longrightarrow>
   fcfs_loop sl t evs (np, q, tr) =
     Inr (fit_budget np (map (node_cost sl) evs),
          serve_all (take (fit_count np (map (node_cost sl) evs)) evs) q,
          tr @ successes t (take (fit_count np (map (node_cost sl) evs)) evs))"
  by (induction evs arbitrary: np q tr)
     (auto simp: get_node_def node_cost_def serve_all_def successes_def Let_def)

lemma rrq_events_eq:
  "rrq_events t c evs (np, q, tr) =
     (if fit_count np (map (\<lambda>e. c) evs) = length evs
      then Finished (fit_budget np (map (\<lambda>e. c) evs), serve_all evs q, tr @ successes t evs)
      else Stopped (fit_budget np (map (\<lambda>e. c) evs),
             serve_all (take (fit_count np (map (\<lambda>e. c) evs)) evs) q,
             tr @ successes t (take (fit_count np (map (\<lambda>e. c) evs)) evs)))"
  by (induction evs arbitrary: np q tr)
     (auto simp: serve_all_def successes_def Let_def)

lemma filter_remove1_other: "\<not> P x \<Longrightarrow> filter P (remove1 x xs) = filter P xs"
  by (induction xs) auto

lemma filter_serve_all_other:
  "\<forall>e\<in>set evs. \<not> P e \<Longrightarrow> filter P (serve_all evs q) = filter P q"
  by (induction evs arbitrary: q) (auto simp: serve_all_def filter_remove1_other)

lemma serve_all_append: "serve_all (xs @ ys) q = serve_all ys (serve_all xs q)"
  by (simp add: serve_all_def)

lemma successes_append: "successes t (xs @ ys) = successes t xs @ successes t ys"
  by (simp add: successes_def)

lemma indexed_pool_eq: "indexed_pool sl = map (\<lambda>i. (i, pool sl ! i)) [0..<length (pool sl)]"
  unfolding indexed_pool_def by (rule nth_equalityI) auto

lemma group_requests_serve_other:
  "\<forall>e\<in>set evs. node_id e \<notin> set inds \<Longrightarrow>
   group_requests inds (serve_all evs q) = group_requests inds q"
  unfolding group_requests_def
  by (rule arg_cong [where f = concat], rule map_cong [OF refl])
     (rule filter_serve_all_other, auto)

text \<open>
  The nested loops of the queue-aware round robin serve the requests grouped by node,
  as one list, up to the first request that does not fit.
\<close>

lemma rrq_nodes_eq:
  "distinct inds \<Longrightarrow>
   rrq_nodes t (map (\<lambda>i. (i, pool sl ! i)) inds) (np, q, tr) =
     (let flat = group_requests inds q; cs = map (node_cost sl) flat; k = fit_count np cs in
      if k = length flat
      then Finished (fit_budget np cs, serve_all flat q, tr @ successes t flat)
      else Stopped (fit_budget np cs, serve_all (take k flat) q, tr @ successes t (take k flat)))"
proof (induction inds arbitrary: np q tr)
  case Nil
  then show ?case by (simp add: group_requests_def serve_all_def successes_def)
next
  case (Cons i inds)
  let ?g = "filter (\<lambda>e. node_id e = i) q"
  let ?c = "map (node_cost sl) ?g"
  have gc: "map (\<lambda>e. pilot_samples (pool sl ! i)) ?g = ?c"
    by (simp add: node_cost_def)
  have split: "group_requests (i # inds) q = ?g @ group_requests inds q"
    by (simp add: group_requests_def)
  have other: "group_requests inds (serve_all ?g q) = group_requests inds q"
    using Cons.prems by (intro group_requests_serve_other) auto
  from Cons.prems have d: "distinct inds" by simp
  show ?case
  proof (cases "fit_count np ?c = length ?g")
    case True
    then have fb: "fit_budget np ?c = np - sum_list ?c"
      by (simp add: fit_budget_full)
    show ?thesis
      using True fit_count_le [of "np - sum_list ?c" "map (node_cost sl) (group_requests inds q)"]
      by (simp add: rrq_events_eq gc Cons.IH [OF d] other split fit_count_append fit_budget_append
            fb serve_all_append successes_append Let_def)
  next
    case False
    with fit_count_le [of np ?c] have lt: "fit_count np ?c < length ?g" by simp
    show ?thesis
      using False lt
      by (simp add: rrq_events_eq gc split fit_count_append fit_budget_append Let_def)
  qed
qed

section \<open>FCFS\_FCFS\<close>

text \<open>
  Claim C2, as stated, fails. In scenario A with one class-B request of cost 1 added,
  the class-A pass serves the request with deadline 8 (budget 5 to 2) and stops at the
  request with deadline 10; the budget of 2 that is left is not offered to class B: the
  class-B request stays queued.
\<close>

theorem fcfs_leftover_not_offered_to_class_B:
  "(case fist_come_first_served scenario_A of
      Inl err \<Rightarrow> False
    | Inr s' \<Rightarrow>
        served (trace s') = [arrival URLLC_ARRIVAL 1 8 2]
        \<and> send_queue_URLLC s' = [arrival URLLC_ARRIVAL 0 10 1]
        \<and> send_queue_mMTC s' = [arrival mMTC_ARRIVAL 0 30 1])"
  by (simp add: scenario_A_def fist_come_first_served_def input_defs)

text \<open>
  Claim C2, amended. Under FCFS\_FCFS, when every queued request names a node of its
  pool, the pass is the strict-priority pass over the two queues in ascending deadline
  order: class A is served up to the first request whose cost exceeds the remaining
  budget, that request and all later ones remain queued, and its cost is not restored;
  class B is then served the same way with the leftover budget only if every class-A
  request was served and the leftover is positive, and not at all otherwise.
\<close>

theorem fcfs_is_priority_pass:
  assumes "\<forall>e\<in>set (send_queue_URLLC s). node_id e < length (pool (Slices_URLLC s))"
      and "\<forall>e\<in>set (send_queue_mMTC s). node_id e < length (pool (Slices_mMTC s))"
  shows "fist_come_first_served s =
           Inr (priority_pass (sort_key dead_time (send_queue_URLLC s))
                  (sort_key dead_time (send_queue_mMTC s)) s)"
proof -
  let ?as = "sort_key dead_time (send_queue_URLLC s)"
  let ?bs = "sort_key dead_time (send_queue_mMTC s)"
  let ?ca = "map (node_cost (Slices_URLLC s)) ?as"
  have a: "\<forall>e\<in>set ?as. node_id e < length (pool (Slices_URLLC s))"
    using assms(1) by simp
  have b: "\<forall>e\<in>set ?bs. node_id e < length (pool (Slices_mMTC s))"
    using assms(2) by simp
  show ?thesis
  proof (cases "fit_count (no_pilots s) ?ca = length ?as")
    case True
    then have fb: "fit_budget (no_pilots s) ?ca = leftover s ?as"
      by (simp add: fit_budget_full leftover_def class_A_served_def)
    from True have len: "length (class_A_served s ?as) = length ?as"
      by (simp add: class_A_served_def)
    show ?thesis
      using True fb len
      by (simp add: fist_come_first_served_def fcfs_loop_eq [OF a] fcfs_loop_eq [OF b]
            priority_pass_def class_B_served_def class_A_served_def serve_all_def successes_def)
  next
    case False
    then have neg: "fit_budget (no_pilots s) ?ca < 0"
      by (simp add: fit_budget_short)
    from False have len: "length (class_A_served s ?as) \<noteq> length ?as"
      using fit_count_le [of "no_pilots s" ?ca] by (simp add: class_A_served_def)
    then have cb: "class_B_served s ?as ?bs = []"
      by (simp add: class_B_served_def)
    have ca: "take (fit_count (no_pilots s) ?ca) ?as = class_A_served s ?as"
      by (simp add: class_A_served_def)
    show ?thesis
      using neg
      by (simp add: fist_come_first_served_def fcfs_loop_eq [OF a] ca cb
            priority_pass_def serve_all_def successes_def)
  qed
qed

theorem fcfs_is_priority_pass_witness:
  "fist_come_first_served scenario_A =
     Inr (scenario_A\<lparr>send_queue_URLLC := [arrival URLLC_ARRIVAL 0 10 1],
                     trace := [get_entry (arrival URLLC_ARRIVAL 1 8 2) 1 True]\<rparr>)"
proof -
  have "fist_come_first_served scenario_A =
          Inr (priority_pass (sort_key dead_time (send_queue_URLLC scenario_A))
                 (sort_key dead_time (send_queue_mMTC scenario_A)) scenario_A)"
    by (rule fcfs_is_priority_pass) (simp_all add: scenario_A_def input_defs)
  also have "priority_pass (sort_key dead_time (send_queue_URLLC scenario_A))
                 (sort_key dead_time (send_queue_mMTC scenario_A)) scenario_A =
               scenario_A\<lparr>send_queue_URLLC := [arrival URLLC_ARRIVAL 0 10 1],
                     trace := [get_entry (arrival URLLC_ARRIVAL 1 8 2) 1 True]\<rparr>"
    by (simp add: scenario_A_def priority_pass_def class_A_served_def class_B_served_def
          leftover_def node_cost_def serve_all_def successes_def input_defs)
  finally show ?thesis .
qed

section \<open>RRQ\_RRQ\<close>

text \<open>
  Claim C9. Under RRQ\_RRQ the class-A nodes are taken in pool order and the queued
  requests of each node are served while the budget allows; the pass returns at the
  first request that would make the budget negative; class B is served the same way
  with the leftover budget once class A is done. That is: the pass is the
  strict-priority pass over the two queues in pool order. Scenario B is the witness:
  node 0 drains both its requests (budget 4, 2, 0) and node 1 is not served.
\<close>

theorem rrq_rrq_is_priority_pass:
  "round_robin_queue_info s =
     Inr (priority_pass (requests_in_pool_order (Slices_URLLC s) (send_queue_URLLC s))
            (requests_in_pool_order (Slices_mMTC s) (send_queue_mMTC s)) s)"
proof -
  let ?as = "requests_in_pool_order (Slices_URLLC s) (send_queue_URLLC s)"
  let ?bs = "requests_in_pool_order (Slices_mMTC s) (send_queue_mMTC s)"
  let ?ca = "map (node_cost (Slices_URLLC s)) ?as"
  let ?cb = "map (node_cost (Slices_mMTC s)) ?bs"
  have A: "rrq_nodes (time s) (indexed_pool (Slices_URLLC s))
             (no_pilots s, send_queue_URLLC s, trace s) =
           (if fit_count (no_pilots s) ?ca = length ?as
            then Finished (fit_budget (no_pilots s) ?ca, serve_all ?as (send_queue_URLLC s),
                   trace s @ successes (time s) ?as)
            else Stopped (fit_budget (no_pilots s) ?ca,
                   serve_all (class_A_served s ?as) (send_queue_URLLC s),
                   trace s @ successes (time s) (class_A_served s ?as)))"
    by (simp add: indexed_pool_eq rrq_nodes_eq requests_in_pool_order_def class_A_served_def
          Let_def)
  have B: "rrq_nodes (time s) (indexed_pool (Slices_mMTC s)) (np, send_queue_mMTC s, tr) =
           (if fit_count np ?cb = length ?bs
            then Finished (fit_budget np ?cb, serve_all (take (fit_count np ?cb) ?bs) (send_queue_mMTC s),
                   tr @ successes (time s) (take (fit_count np ?cb) ?bs))
            else Stopped (fit_budget np ?cb,
                   serve_all (take (fit_count np ?cb) ?bs) (send_queue_mMTC s),
                   tr @ successes (time s) (take (fit_count np ?cb) ?bs)))" for np tr
    by (simp add: indexed_pool_eq rrq_nodes_eq requests_in_pool_order_def Let_def)
  show ?thesis
  proof (cases "fit_count (no_pilots s) ?ca = length ?as")
    case True
    then have fb: "fit_budget (no_pilots s) ?ca = leftover s ?as"
      by (simp add: fit_budget_full leftover_def class_A_served_def)
    from True have ca: "class_A_served s ?as = ?as"
      by (simp add: class_A_served_def)
    show ?thesis
      using True
      by (simp add: round_robin_queue_info_def A B fb ca priority_pass_def class_B_served_def
            successes_def serve_all_def)
  next
    case False
    then have neg: "fit_budget (no_pilots s) ?ca < 0"
      by (simp add: fit_budget_short)
    from False have len: "length (class_A_served s ?as) \<noteq> length ?as"
      using fit_count_le [of "no_pilots s" ?ca] by (simp add: class_A_served_def)
    then have cb: "class_B_served s ?as ?bs = []"
      by (simp add: class_B_served_def)
    show ?thesis
      using False
      by (simp add: round_robin_queue_info_def A cb priority_pass_def serve_all_def successes_def)
  qed
qed

theorem rrq_rrq_scenario_B:
  "round_robin_queue_info scenario_B =
     Inr (scenario_B\<lparr>send_queue_URLLC := [arrival URLLC_ARRIVAL 1 8 2],
                     trace := [get_entry (arrival URLLC_ARRIVAL 0 10 3) 1 True,
                               get_entry (arrival URLLC_ARRIVAL 0 8 1) 1 True]\<rparr>)"
  unfolding rrq_rrq_is_priority_pass
  by (simp add: scenario_B_def priority_pass_def class_A_served_def class_B_served_def
        requests_in_pool_order_def group_requests_def leftover_def node_cost_def
        serve_all_def successes_def input_defs)

section \<open>Unknown policy names\<close>

lemma expire_event_strategy:
  "expire_event ev s = Inr s' \<Longrightarrow> pilot_strategy s' = pilot_strategy s"
  by (auto simp: expire_event_def split: if_splits sum.splits)

lemma expire_loop_strategy:
  "expire_loop inds q s = Inr (q', s') \<Longrightarrow> pilot_strategy s' = pilot_strategy s"
proof (induction inds arbitrary: q s)
  case Nil
  then show ?case by simp
next
  case (Cons i inds)
  then show ?case
    by (auto split: sum.splits dest: expire_event_strategy)
qed

lemma handle_expired_events_strategy:
  "handle_expired_events s = Inr s' \<Longrightarrow> pilot_strategy s' = pilot_strategy s"
  by (auto simp: handle_expired_events_def expire_queue_def split: sum.splits prod.splits
           dest!: expire_loop_strategy)

lemma unknown_policy_lookup:
  "name \<notin> {''FCFS_FCFS'', ''RRQ_RRQ'', ''RRQ_FCFS'', ''RRN_FCFS'', ''RRN_RRQ''} \<Longrightarrow>
   strategy_mapping name = None"
  by (simp add: strategy_mapping_def)

text \<open>
  Claim C6, as stated, fails. With the policy name \<open>XYZ\<close> the constructor returns a
  state; the first round of the run handles the arrival at time 1 (the request is
  queued and counted); the KeyError comes in the second round, at the frame boundary at
  time 2, and ends the run.
\<close>

theorem unknown_policy_handles_arrival_first:
  "(case unknown_policy_init of
      Inl err \<Rightarrow> False
    | Inr s0 \<Rightarrow>
        pilot_strategy s0 = ''XYZ'' \<and>
        (case step s0 of
           Inl err \<Rightarrow> False
         | Inr s1 \<Rightarrow>
             time s1 = 1 \<and> map node_id (send_queue_URLLC s1) = [0]
             \<and> stats (stats_obj s1) ''no_urllc_arrivals'' = Some 2
             \<and> step s1 = Inl KeyError)
        \<and> run 2 s0 = Some (Inl KeyError))"
  by (simp add: unknown_policy_init_def Simulation_init_def py_div_def step_def pop_def push_def
        handle_event_def handle_urllc_arrival_def departure_event_def handle_departure_def
        handle_expired_events_def expire_queue_def remove_indices_def assign_pilots_def
        strategy_mapping_def stats_incr_def get_init_def get_next_def input_defs numeral_2_eq_2)

text \<open>
  With a policy name that \<open>strategy_mapping\<close> does not hold, handling a frame boundary
  never succeeds, and a round of the run that succeeds has handled an arrival.
\<close>

lemma unknown_departure_fails:
  assumes "strategy_mapping (pilot_strategy s) = None"
  shows "handle_departure s =
           (case handle_expired_events s of Inl err \<Rightarrow> Inl err | Inr s1 \<Rightarrow> Inl KeyError)"
proof (cases "handle_expired_events s")
  case (Inl err)
  then show ?thesis by (simp add: handle_departure_def)
next
  case (Inr s1)
  from handle_expired_events_strategy [OF Inr] assms
  have "assign_pilots s1 = Inl KeyError" by (simp add: assign_pilots_def)
  with Inr show ?thesis by (simp add: handle_departure_def)
qed

lemma pop_frame_boundaries:
  "pop heap = Inr (ev, rest) \<Longrightarrow> ev_type ev \<noteq> DEPARTURE \<Longrightarrow>
   frame_boundaries rest = frame_boundaries heap"
  by (auto simp: pop_def frame_boundaries_def filter_remove1 Let_def split: list.splits)

lemma push_frame_boundaries:
  "ev_type ev \<noteq> DEPARTURE \<Longrightarrow> frame_boundaries (push ev heap) = frame_boundaries heap"
  by (simp add: push_def frame_boundaries_def)

lemma handle_urllc_arrival_frame:
  "handle_urllc_arrival s ev = Inr s' \<Longrightarrow>
   pilot_strategy s' = pilot_strategy s \<and> trace s' = trace s
   \<and> frame_boundaries (event_heap s') = frame_boundaries (event_heap s)"
  by (auto simp: handle_urllc_arrival_def push_frame_boundaries URLLC_ARRIVAL_def DEPARTURE_def
           split: sum.splits prod.splits option.splits)

lemma handle_mmtc_arrival_frame:
  "handle_mmtc_arrival s ev = Inr s' \<Longrightarrow>
   pilot_strategy s' = pilot_strategy s \<and> trace s' = trace s
   \<and> frame_boundaries (event_heap s') = frame_boundaries (event_heap s)"
  by (auto simp: handle_mmtc_arrival_def push_frame_boundaries mMTC_ARRIVAL_def DEPARTURE_def
           split: sum.splits prod.splits option.splits)

lemma step_unknown:
  assumes u: "strategy_mapping (pilot_strategy s) = None" and st: "step s = Inr s'"
  shows "no_frame_boundary_handled s s'"
proof -
  from st obtain ev rest where p: "pop (event_heap s) = Inr (ev, rest)"
    and h: "handle_event (s\<lparr>event_heap := rest, time := ev_time ev\<rparr>) ev = Inr s'"
    by (auto simp: step_def split: sum.splits prod.splits)
  let ?s1 = "s\<lparr>event_heap := rest, time := ev_time ev\<rparr>"
  have u1: "strategy_mapping (pilot_strategy ?s1) = None" using u by simp
  have nd: "ev_type ev \<noteq> DEPARTURE"
  proof
    assume d: "ev_type ev = DEPARTURE"
    then have "handle_event ?s1 ev = handle_departure ?s1"
      by (simp add: handle_event_def URLLC_ARRIVAL_def mMTC_ARRIVAL_def DEPARTURE_def)
    with h unknown_departure_fails [OF u1] show False
      by (simp split: sum.splits)
  qed
  from h nd have "handle_urllc_arrival ?s1 ev = Inr s' \<or> handle_mmtc_arrival ?s1 ev = Inr s'"
    by (auto simp: handle_event_def split: if_splits)
  then have "pilot_strategy s' = pilot_strategy ?s1 \<and> trace s' = trace ?s1
      \<and> frame_boundaries (event_heap s') = frame_boundaries (event_heap ?s1)"
    using handle_urllc_arrival_frame handle_mmtc_arrival_frame by blast
  with pop_frame_boundaries [OF p nd] show ?thesis
    by (simp add: no_frame_boundary_handled_def)
qed

lemma run_unknown:
  "strategy_mapping (pilot_strategy s) = None \<Longrightarrow> run fuel s = Some (Inr s') \<Longrightarrow>
   no_frame_boundary_handled s s'"
proof (induction fuel arbitrary: s)
  case 0
  then show ?case by (simp add: no_frame_boundary_handled_def split: if_splits)
next
  case (Suc fuel)
  show ?case
  proof (cases "time s < simulation_length s")
    case False
    with Suc.prems show ?thesis by (simp add: no_frame_boundary_handled_def)
  next
    case True
    with Suc.prems obtain s1 where st: "step s = Inr s1" and r: "run fuel s1 = Some (Inr s')"
      by (auto split: sum.splits)
    from step_unknown [OF Suc.prems(1) st] have one: "no_frame_boundary_handled s s1" .
    then have "strategy_mapping (pilot_strategy s1) = None"
      using Suc.prems(1) by (simp add: no_frame_boundary_handled_def)
    from Suc.IH [OF this r] one show ?thesis
      by (simp add: no_frame_boundary_handled_def)
  qed
qed

lemma step_departure_unknown:
  assumes u: "strategy_mapping (pilot_strategy s) = None"
      and p: "pop (event_heap s) = Inr (dep, rest)" and d: "ev_type dep = DEPARTURE"
  shows "step s = (case handle_expired_events (s\<lparr>event_heap := rest, time := ev_time dep\<rparr>) of
                     Inl err \<Rightarrow> Inl err | Inr s1 \<Rightarrow> Inl KeyError)"
proof -
  let ?s1 = "s\<lparr>event_heap := rest, time := ev_time dep\<rparr>"
  have u1: "strategy_mapping (pilot_strategy ?s1) = None" using u by simp
  have "step s = handle_departure ?s1"
    using p d by (simp add: step_def handle_event_def URLLC_ARRIVAL_def mMTC_ARRIVAL_def DEPARTURE_def)
  with unknown_departure_fails [OF u1] show ?thesis by simp
qed

lemma step_arrival_any_name:
  assumes p: "pop (event_heap s) = Inr (ev, rest)"
      and a: "ev_type ev = URLLC_ARRIVAL \<or> ev_type ev = mMTC_ARRIVAL"
  shows "step (s\<lparr>pilot_strategy := name\<rparr>) =
           map_sum id (\<lambda>s'. s'\<lparr>pilot_strategy := name\<rparr>) (step s)"
  using p a
  by (auto simp: step_def handle_event_def handle_urllc_arrival_def handle_mmtc_arrival_def
           split: sum.splits prod.splits option.splits)


lemmas run_defs = Simulation_init_def py_div_def step_def pop_def push_def
        handle_event_def handle_urllc_arrival_def departure_event_def handle_departure_def
        handle_expired_events_def expire_queue_def remove_indices_def assign_pilots_def
        strategy_mapping_def stats_incr_def get_init_def get_next_def

text \<open>
  Claim C6, amended. Let the configured policy name (the scheduler argument, or the
  strategy of the configuration when no scheduler is given) be none of the five
  recognised names. The constructor does not fail on it: it builds the state it builds
  for a recognised name, with the unknown name stored. Arrival events, and the rounds
  of the run that handle them, go as for a recognised name. A round of the run that
  handles a frame boundary never succeeds: it ends the run with the error of the expiry
  step of that frame if that step fails, and with the KeyError of the policy lookup in
  \<open>__assign_pilots\<close> otherwise. A run that returns normally, its horizon reached
  before a frame boundary was handled, has handled arrivals only: the policy name, the
  trace and the frame-boundary events pending in the clock are unchanged.
\<close>

theorem unknown_policy_fails_at_first_frame_boundary:
  assumes "name \<notin> {''FCFS_FCFS'', ''RRQ_RRQ'', ''RRQ_FCFS'', ''RRN_FCFS'', ''RRN_RRQ''}"
  shows "((case scheduler of Some given \<Rightarrow> given | None \<Rightarrow> cfg_strategy cfg) = name \<longrightarrow>
            Simulation_init cfg st tr urllc mmtc scheduler =
              map_sum id (\<lambda>s. s\<lparr>pilot_strategy := name\<rparr>)
                (Simulation_init cfg st tr urllc mmtc (Some ''FCFS_FCFS'')))
         \<and> (ev_type ev = URLLC_ARRIVAL \<or> ev_type ev = mMTC_ARRIVAL \<longrightarrow>
              handle_event (s\<lparr>pilot_strategy := name\<rparr>) ev =
                map_sum id (\<lambda>s'. s'\<lparr>pilot_strategy := name\<rparr>) (handle_event s ev))
         \<and> (pop (event_heap s) = Inr (ev, rest) \<longrightarrow>
              ev_type ev = URLLC_ARRIVAL \<or> ev_type ev = mMTC_ARRIVAL \<longrightarrow>
              step (s\<lparr>pilot_strategy := name\<rparr>) =
                map_sum id (\<lambda>s'. s'\<lparr>pilot_strategy := name\<rparr>) (step s))
         \<and> (pilot_strategy s = name \<longrightarrow> assign_pilots s = Inl KeyError)
         \<and> (pilot_strategy s = name \<longrightarrow> handle_expired_events s = Inr s1 \<longrightarrow>
              handle_departure s = Inl KeyError)
         \<and> (pilot_strategy s = name \<longrightarrow> pop (event_heap s) = Inr (dep, heap) \<longrightarrow>
              ev_type dep = DEPARTURE \<longrightarrow>
              step s = (case handle_expired_events (s\<lparr>event_heap := heap, time := ev_time dep\<rparr>) of
                          Inl err \<Rightarrow> Inl err
                        | Inr s2 \<Rightarrow> Inl KeyError))
         \<and> (pilot_strategy s = name \<longrightarrow> pop (event_heap s) = Inr (dep, heap) \<longrightarrow>
              ev_type dep = DEPARTURE \<longrightarrow> time s < simulation_length s \<longrightarrow>
              run (Suc fuel) s =
                (case handle_expired_events (s\<lparr>event_heap := heap, time := ev_time dep\<rparr>) of
                   Inl err \<Rightarrow> Some (Inl err)
                 | Inr s2 \<Rightarrow> Some (Inl KeyError)))
         \<and> (pilot_strategy s = name \<longrightarrow> step s = Inr s3 \<longrightarrow> no_frame_boundary_handled s s3)
         \<and> (pilot_strategy s = name \<longrightarrow> run fuel s = Some (Inr s4) \<longrightarrow>
              no_frame_boundary_handled s s4)"
proof (intro conjI impI)
  assume "(case scheduler of Some given \<Rightarrow> given | None \<Rightarrow> cfg_strategy cfg) = name"
  then show "Simulation_init cfg st tr urllc mmtc scheduler =
           map_sum id (\<lambda>s. s\<lparr>pilot_strategy := name\<rparr>)
             (Simulation_init cfg st tr urllc mmtc (Some ''FCFS_FCFS''))"
    by (auto simp: Simulation_init_def split: sum.splits prod.splits option.splits)
next
  assume "ev_type ev = URLLC_ARRIVAL \<or> ev_type ev = mMTC_ARRIVAL"
  then show "handle_event (s\<lparr>pilot_strategy := name\<rparr>) ev =
                map_sum id (\<lambda>s'. s'\<lparr>pilot_strategy := name\<rparr>) (handle_event s ev)"
    by (auto simp: handle_event_def handle_urllc_arrival_def handle_mmtc_arrival_def
             split: sum.splits prod.splits option.splits)
next
  assume "pop (event_heap s) = Inr (ev, rest)"
    and "ev_type ev = URLLC_ARRIVAL \<or> ev_type ev = mMTC_ARRIVAL"
  then show "step (s\<lparr>pilot_strategy := name\<rparr>) =
                map_sum id (\<lambda>s'. s'\<lparr>pilot_strategy := name\<rparr>) (step s)"
    by (rule step_arrival_any_name)
next
  assume "pilot_strategy s = name"
  then show "assign_pilots s = Inl KeyError"
    using unknown_policy_lookup [OF assms] by (simp add: assign_pilots_def)
next
  assume n: "pilot_strategy s = name" and e: "handle_expired_events s = Inr s1"
  from n have "strategy_mapping (pilot_strategy s) = None"
    using unknown_policy_lookup [OF assms] by simp
  from unknown_departure_fails [OF this] e show "handle_departure s = Inl KeyError"
    by simp
next
  assume n: "pilot_strategy s = name" and p: "pop (event_heap s) = Inr (dep, heap)"
    and d: "ev_type dep = DEPARTURE"
  from n have u: "strategy_mapping (pilot_strategy s) = None"
    using unknown_policy_lookup [OF assms] by simp
  show "step s = (case handle_expired_events (s\<lparr>event_heap := heap, time := ev_time dep\<rparr>) of
                          Inl err \<Rightarrow> Inl err
                        | Inr s2 \<Rightarrow> Inl KeyError)"
    by (rule step_departure_unknown [OF u p d])
next
  assume n: "pilot_strategy s = name" and p: "pop (event_heap s) = Inr (dep, heap)"
    and d: "ev_type dep = DEPARTURE" and t: "time s < simulation_length s"
  from n have u: "strategy_mapping (pilot_strategy s) = None"
    using unknown_policy_lookup [OF assms] by simp
  show "run (Suc fuel) s =
          (case handle_expired_events (s\<lparr>event_heap := heap, time := ev_time dep\<rparr>) of
             Inl err \<Rightarrow> Some (Inl err)
           | Inr s2 \<Rightarrow> Some (Inl KeyError))"
    using t by (simp add: step_departure_unknown [OF u p d] split: sum.splits)
next
  assume n: "pilot_strategy s = name" and st: "step s = Inr s3"
  from n have u: "strategy_mapping (pilot_strategy s) = None"
    using unknown_policy_lookup [OF assms] by simp
  show "no_frame_boundary_handled s s3"
    by (rule step_unknown [OF u st])
next
  assume n: "pilot_strategy s = name" and r: "run fuel s = Some (Inr s4)"
  from n have u: "strategy_mapping (pilot_strategy s) = None"
    using unknown_policy_lookup [OF assms] by simp
  show "no_frame_boundary_handled s s4"
    by (rule run_unknown [OF u r])
qed

theorem unknown_policy_fails_at_first_frame_boundary_witness:
  "assign_pilots (mk_sim 0 ''XYZ'' 4 [mk_node 1 4] [] [] []) = Inl KeyError
   \<and> handle_departure (mk_sim 0 ''XYZ'' 4 [mk_node 1 4] [] [] []) = Inl KeyError
   \<and> run 1 (mk_sim 0 ''XYZ'' 4 [mk_node 1 4] [] [] []) = Some (Inl KeyError)
   \<and> (case unknown_policy_short_init of
         Inl err \<Rightarrow> False
       | Inr s0 \<Rightarrow>
           (case run 5 s0 of
              Some (Inr s') \<Rightarrow>
                pilot_strategy s' = ''XYZ'' \<and> time s' = 1 \<and> trace s' = []
                \<and> map ev_time (frame_boundaries (event_heap s')) = [2]
            | _ \<Rightarrow> False))"
proof -
  let ?s = "mk_sim 0 ''XYZ'' 4 [mk_node 1 4] [] [] []"
  have n: "''XYZ'' \<notin> {''FCFS_FCFS'', ''RRQ_RRQ'', ''RRQ_FCFS'', ''RRN_FCFS'', ''RRN_RRQ''}"
    by simp
  have ps: "pilot_strategy ?s = ''XYZ''" by (simp add: mk_sim_def)
  have e: "handle_expired_events ?s = Inr ?s"
    by (simp add: handle_expired_events_def expire_queue_def remove_indices_def mk_sim_def)
  have p: "pop (event_heap ?s) = Inr (departure_event 1, [])"
    by (simp add: pop_def mk_sim_def)
  have d: "ev_type (departure_event 1) = DEPARTURE" by (simp add: departure_event_def)
  have t: "time ?s < simulation_length ?s" by (simp add: mk_sim_def)
  have e1: "handle_expired_events (?s\<lparr>event_heap := [], time := ev_time (departure_event 1)\<rparr>)
             = Inr (?s\<lparr>event_heap := [], time := ev_time (departure_event 1)\<rparr>)"
    by (simp add: handle_expired_events_def expire_queue_def remove_indices_def mk_sim_def)
  note inst = unknown_policy_fails_at_first_frame_boundary
      [OF n, where s = ?s and ?s1.0 = ?s and dep = "departure_event 1" and heap = "[]" and fuel = 0]
  from inst ps have a: "assign_pilots ?s = Inl KeyError" by blast
  from inst ps e have b: "handle_departure ?s = Inl KeyError" by blast
  from inst ps p d t have "run (Suc 0) ?s =
        (case handle_expired_events (?s\<lparr>event_heap := [], time := ev_time (departure_event 1)\<rparr>) of
           Inl err \<Rightarrow> Some (Inl err) | Inr s2 \<Rightarrow> Some (Inl KeyError))"
    by blast
  then have c: "run 1 ?s = Some (Inl KeyError)"
    by (simp only: e1 sum.case One_nat_def)
  have short: "(case unknown_policy_short_init of
         Inl err \<Rightarrow> False
       | Inr s0 \<Rightarrow>
           (case run 5 s0 of
              Some (Inr s') \<Rightarrow>
                pilot_strategy s' = ''XYZ'' \<and> time s' = 1 \<and> trace s' = []
                \<and> map ev_time (frame_boundaries (event_heap s')) = [2]
            | _ \<Rightarrow> False))"
    by (simp add: unknown_policy_short_init_def run_defs frame_boundaries_def input_defs
          eval_nat_numeral)
  from a b c short show ?thesis by blast
qed

section \<open>Deadline expiry at a frame boundary\<close>

lemma remove_indices_snoc:
  "remove_indices t (q @ [x]) = remove_indices t q @ (if dead_time x < t then [length q] else [])"
proof -
  have "filter (\<lambda>i. dead_time ((q @ [x]) ! i) < t) [0..<length q]
          = filter (\<lambda>i. dead_time (q ! i) < t) [0..<length q]"
    by (rule filter_cong) (auto simp: nth_append)
  then show ?thesis by (simp add: remove_indices_def)
qed

lemma remove_indices_bound: "i \<in> set (remove_indices t q) \<Longrightarrow> i < length q"
  by (simp add: remove_indices_def)

lemma remove_indices_sorted: "sorted_wrt (<) (remove_indices t q)"
  unfolding remove_indices_def by (rule sorted_wrt_filter) simp

lemma sort_remove_indices: "sort (remove_indices t q) = remove_indices t q"
  by (rule sorted_sort_id) (use remove_indices_sorted [of t q] in \<open>simp add: strict_sorted_iff\<close>)

lemma delete_index_snoc: "i < length q \<Longrightarrow> delete_index i (q @ [x]) = delete_index i q @ [x]"
  by (simp add: delete_index_def)

lemma delete_index_last: "delete_index (length q) (q @ [x]) = q"
  by (simp add: delete_index_def)

lemma length_delete_index: "i < length q \<Longrightarrow> length (delete_index i q) = length q - 1"
  by (simp add: delete_index_def)

lemma expire_loop_snoc:
  "sorted_wrt (>) inds \<Longrightarrow> \<forall>i\<in>set inds. i < length q \<Longrightarrow>
   expire_loop inds (q @ [x]) s =
     (case expire_loop inds q s of Inl err \<Rightarrow> Inl err | Inr (q', s') \<Rightarrow> Inr (q' @ [x], s'))"
proof (induction inds arbitrary: q s)
  case Nil
  then show ?case by simp
next
  case (Cons i inds)
  from Cons.prems have i: "i < length q" by simp
  have below: "\<forall>j\<in>set inds. j < length (delete_index i q)"
    using Cons.prems i by (auto simp: length_delete_index)
  from Cons.prems have s: "sorted_wrt (>) inds" by simp
  show ?case
    using i by (simp add: nth_append delete_index_snoc Cons.IH [OF s below] split: sum.splits)
qed

lemma expire_loop_eq:
  "expire_loop (rev (remove_indices t q)) q s =
     (case expire_all (rev (expired t q)) s of
        Inl err \<Rightarrow> Inl err
      | Inr s' \<Rightarrow> Inr (unexpired t q, s'))"
proof (induction q arbitrary: s rule: rev_induct)
  case Nil
  then show ?case by (simp add: remove_indices_def expired_def unexpired_def)
next
  case (snoc x q)
  show ?case
  proof (cases "dead_time x < t")
    case True
    then show ?thesis
      by (simp add: remove_indices_snoc expired_def unexpired_def delete_index_last
            snoc.IH [unfolded expired_def unexpired_def] split: sum.splits)
  next
    case False
    have d: "sorted_wrt (>) (rev (remove_indices t q))"
      using remove_indices_sorted [of t q] by (simp add: sorted_wrt_rev)
    have b: "\<forall>i\<in>set (rev (remove_indices t q)). i < length q"
      by (simp add: remove_indices_bound)
    show ?thesis
      using False
      by (simp add: remove_indices_snoc expire_loop_snoc [OF d b] snoc.IH expired_def unexpired_def
            split: sum.splits)
  qed
qed


lemma deactivate_length [simp]: "length (pool (deactivate I sl)) = length (pool sl)"
  by (simp add: deactivate_def)

lemma deactivate_nth:
  "i < length (pool sl) \<Longrightarrow>
   pool (deactivate I sl) ! i = (if i \<in> I then (pool sl ! i)\<lparr>active := False\<rparr> else pool sl ! i)"
  by (simp add: deactivate_def)

lemma deactivate_single:
  "j < length (pool sl) \<Longrightarrow>
   set_node sl j ((pool sl ! j)\<lparr>active := False\<rparr>) = deactivate {j} sl"
  unfolding set_node_def deactivate_def
  by (rule arg_cong [where f = "\<lambda>p. sl\<lparr>pool := p\<rparr>"], rule nth_equalityI)
     (auto simp: nth_list_update)

lemma deactivate_twice: "deactivate I (deactivate J sl) = deactivate (I \<union> J) sl"
proof (rule slice.equality)
  show "pool (deactivate I (deactivate J sl)) = pool (deactivate (I \<union> J) sl)"
    by (rule nth_equalityI) (auto simp: deactivate_nth)
qed (simp_all add: deactivate_def)

lemma deactivate_empty: "deactivate {} sl = sl"
  unfolding deactivate_def by (simp add: map_nth)

lemma expire_all_urllc:
  "\<forall>e\<in>set es. ev_type e = URLLC_ARRIVAL \<and> node_id e < length (pool (Slices_URLLC s)) \<Longrightarrow>
   stats (stats_obj s) ''no_missed_urllc'' = Some v \<Longrightarrow>
   expire_all es s =
     Inr (s\<lparr>Slices_URLLC := deactivate (node_id ` set es) (Slices_URLLC s),
            stats_obj := (stats_obj s)\<lparr>stats :=
               (stats (stats_obj s))(''no_missed_urllc'' \<mapsto> v + int (length es))\<rparr>,
            trace := trace s @ map (\<lambda>e. get_entry e (time s) False) es\<rparr>)"
proof (induction es arbitrary: s v)
  case Nil
  have "(stats (stats_obj s))(''no_missed_urllc'' \<mapsto> v) = stats (stats_obj s)"
    using Nil.prems(2) by (simp add: map_upd_triv)
  then show ?case by (simp add: deactivate_empty)
next
  case (Cons e es)
  let ?s1 = "s\<lparr>Slices_URLLC := deactivate {node_id e} (Slices_URLLC s),
                stats_obj := (stats_obj s)\<lparr>stats := (stats (stats_obj s))(''no_missed_urllc'' \<mapsto> v + 1)\<rparr>,
                trace := trace s @ [get_entry e (time s) False]\<rparr>"
  from Cons.prems have e: "ev_type e = URLLC_ARRIVAL" "node_id e < length (pool (Slices_URLLC s))"
    by simp_all
  have step: "expire_event e s = Inr ?s1"
    using e Cons.prems(2)
    by (simp add: expire_event_def get_node_def stats_incr_def deactivate_single)
  have rest: "\<forall>x\<in>set es. ev_type x = URLLC_ARRIVAL \<and> node_id x < length (pool (Slices_URLLC ?s1))"
    using Cons.prems(1) by simp
  have key: "stats (stats_obj ?s1) ''no_missed_urllc'' = Some (v + 1)"
    by simp
  have un: "node_id ` set es \<union> {node_id e} = insert (node_id e) (node_id ` set es)"
    by auto
  have "expire_all (e # es) s = expire_all es ?s1"
    by (simp add: step)
  also note Cons.IH [OF rest key]
  also have "?s1\<lparr>Slices_URLLC := deactivate (node_id ` set es) (Slices_URLLC ?s1),
            stats_obj := (stats_obj ?s1)\<lparr>stats :=
               (stats (stats_obj ?s1))(''no_missed_urllc'' \<mapsto> v + 1 + int (length es))\<rparr>,
            trace := trace ?s1 @ map (\<lambda>e. get_entry e (time ?s1) False) es\<rparr>
       = s\<lparr>Slices_URLLC := deactivate (node_id ` set (e # es)) (Slices_URLLC s),
            stats_obj := (stats_obj s)\<lparr>stats :=
               (stats (stats_obj s))(''no_missed_urllc'' \<mapsto> v + int (length (e # es)))\<rparr>,
            trace := trace s @ map (\<lambda>e. get_entry e (time s) False) (e # es)\<rparr>"
    by (simp add: deactivate_twice un add.assoc)
  finally show ?case .
qed

lemma expire_all_mmtc:
  "\<forall>e\<in>set es. ev_type e = mMTC_ARRIVAL \<and> node_id e < length (pool (Slices_mMTC s)) \<Longrightarrow>
   stats (stats_obj s) ''no_missed_mmtc'' = Some v \<Longrightarrow>
   expire_all es s =
     Inr (s\<lparr>Slices_mMTC := deactivate (node_id ` set es) (Slices_mMTC s),
            stats_obj := (stats_obj s)\<lparr>stats :=
               (stats (stats_obj s))(''no_missed_mmtc'' \<mapsto> v + int (length es))\<rparr>,
            trace := trace s @ map (\<lambda>e. get_entry e (time s) False) es\<rparr>)"
proof (induction es arbitrary: s v)
  case Nil
  have "(stats (stats_obj s))(''no_missed_mmtc'' \<mapsto> v) = stats (stats_obj s)"
    using Nil.prems(2) by (simp add: map_upd_triv)
  then show ?case by (simp add: deactivate_empty)
next
  case (Cons e es)
  let ?s1 = "s\<lparr>Slices_mMTC := deactivate {node_id e} (Slices_mMTC s),
                stats_obj := (stats_obj s)\<lparr>stats := (stats (stats_obj s))(''no_missed_mmtc'' \<mapsto> v + 1)\<rparr>,
                trace := trace s @ [get_entry e (time s) False]\<rparr>"
  from Cons.prems have e: "ev_type e = mMTC_ARRIVAL" "node_id e < length (pool (Slices_mMTC s))"
    by simp_all
  have step: "expire_event e s = Inr ?s1"
    using e Cons.prems(2)
    by (simp add: expire_event_def get_node_def stats_incr_def deactivate_single
          URLLC_ARRIVAL_def mMTC_ARRIVAL_def)
  have rest: "\<forall>x\<in>set es. ev_type x = mMTC_ARRIVAL \<and> node_id x < length (pool (Slices_mMTC ?s1))"
    using Cons.prems(1) by simp
  have key: "stats (stats_obj ?s1) ''no_missed_mmtc'' = Some (v + 1)"
    by simp
  have un: "node_id ` set es \<union> {node_id e} = insert (node_id e) (node_id ` set es)"
    by auto
  have "expire_all (e # es) s = expire_all es ?s1"
    by (simp add: step)
  also note Cons.IH [OF rest key]
  also have "?s1\<lparr>Slices_mMTC := deactivate (node_id ` set es) (Slices_mMTC ?s1),
            stats_obj := (stats_obj ?s1)\<lparr>stats :=
               (stats (stats_obj ?s1))(''no_missed_mmtc'' \<mapsto> v + 1 + int (length es))\<rparr>,
            trace := trace ?s1 @ map (\<lambda>e. get_entry e (time ?s1) False) es\<rparr>
       = s\<lparr>Slices_mMTC := deactivate (node_id ` set (e # es)) (Slices_mMTC s),
            stats_obj := (stats_obj s)\<lparr>stats :=
               (stats (stats_obj s))(''no_missed_mmtc'' \<mapsto> v + int (length (e # es)))\<rparr>,
            trace := trace s @ map (\<lambda>e. get_entry e (time s) False) (e # es)\<rparr>"
    by (simp add: deactivate_twice un add.assoc)
  finally show ?case .
qed


lemma expire_queue_eq:
  "expire_queue q s =
     (case expire_all (rev (expired (time s) q)) s of
        Inl err \<Rightarrow> Inl err
      | Inr s' \<Rightarrow> Inr (unexpired (time s) q, s'))"
  by (simp add: expire_queue_def sort_remove_indices expire_loop_eq)

lemma handle_expired_events_eq:
  assumes A: "\<forall>e\<in>set (send_queue_URLLC s).
                ev_type e = URLLC_ARRIVAL \<and> node_id e < length (pool (Slices_URLLC s))"
      and B: "\<forall>e\<in>set (send_queue_mMTC s).
                ev_type e = mMTC_ARRIVAL \<and> node_id e < length (pool (Slices_mMTC s))"
      and mu: "stats (stats_obj s) ''no_missed_urllc'' = Some mu"
      and mm: "stats (stats_obj s) ''no_missed_mmtc'' = Some mm"
  shows "handle_expired_events s =
     Inr (s\<lparr>send_queue_URLLC := unexpired (time s) (send_queue_URLLC s),
            send_queue_mMTC := unexpired (time s) (send_queue_mMTC s),
            Slices_URLLC := deactivate (node_id ` set (expired (time s) (send_queue_URLLC s)))
                              (Slices_URLLC s),
            Slices_mMTC := deactivate (node_id ` set (expired (time s) (send_queue_mMTC s)))
                              (Slices_mMTC s),
            stats_obj := (stats_obj s)\<lparr>stats := (stats (stats_obj s))
               (''no_missed_urllc'' \<mapsto> mu + int (length (expired (time s) (send_queue_URLLC s))),
                ''no_missed_mmtc'' \<mapsto> mm + int (length (expired (time s) (send_queue_mMTC s))))\<rparr>,
            trace := trace s @ map (\<lambda>e. get_entry e (time s) False)
                       (rev (expired (time s) (send_queue_URLLC s))
                        @ rev (expired (time s) (send_queue_mMTC s)))\<rparr>)"
proof -
  let ?xa = "expired (time s) (send_queue_URLLC s)"
  let ?xb = "expired (time s) (send_queue_mMTC s)"
  let ?s1 = "s\<lparr>Slices_URLLC := deactivate (node_id ` set (rev ?xa)) (Slices_URLLC s),
               stats_obj := (stats_obj s)\<lparr>stats :=
                  (stats (stats_obj s))(''no_missed_urllc'' \<mapsto> mu + int (length (rev ?xa)))\<rparr>,
               trace := trace s @ map (\<lambda>e. get_entry e (time s) False) (rev ?xa)\<rparr>"
  have a: "\<forall>e\<in>set (rev ?xa). ev_type e = URLLC_ARRIVAL \<and> node_id e < length (pool (Slices_URLLC s))"
    using A by (simp add: expired_def)
  have first: "expire_all (rev ?xa) s = Inr ?s1"
    by (rule expire_all_urllc [OF a mu])
  let ?s1' = "?s1\<lparr>send_queue_URLLC := unexpired (time s) (send_queue_URLLC s)\<rparr>"
  have b: "\<forall>e\<in>set (rev ?xb). ev_type e = mMTC_ARRIVAL \<and> node_id e < length (pool (Slices_mMTC ?s1'))"
    using B by (simp add: expired_def)
  have mm1: "stats (stats_obj ?s1') ''no_missed_mmtc'' = Some mm"
    using mm by simp
  have second: "expire_all (rev ?xb) ?s1' =
      Inr (?s1'\<lparr>Slices_mMTC := deactivate (node_id ` set (rev ?xb)) (Slices_mMTC ?s1'),
            stats_obj := (stats_obj ?s1')\<lparr>stats :=
               (stats (stats_obj ?s1'))(''no_missed_mmtc'' \<mapsto> mm + int (length (rev ?xb)))\<rparr>,
            trace := trace ?s1' @ map (\<lambda>e. get_entry e (time ?s1') False) (rev ?xb)\<rparr>)"
    by (rule expire_all_mmtc [OF b mm1])
  show ?thesis
    using second
    by (simp add: handle_expired_events_def expire_queue_eq first)
qed

text \<open>
  Claim C5. \<open>__handle_departure\<close> runs \<open>__handle_expired_events\<close> and allocates on
  the state this leaves. When the class-A queue holds class-A arrivals and the class-B queue
  class-B arrivals, each of a node of its pool, and the two missed counters exist, the
  expiry step succeeds and removes exactly the entries whose deadline is strictly
  before the clock; the node of every removed entry has \<open>active\<close> cleared, the missed
  counter of each class grows by the number of removed entries of the class, and one
  failed outcome per removed entry is written to the trace. Scenario C is the witness.
\<close>

theorem handle_expired_events_removes_exactly_expired:
  assumes A: "\<forall>e\<in>set (send_queue_URLLC s).
                ev_type e = URLLC_ARRIVAL \<and> node_id e < length (pool (Slices_URLLC s))"
      and B: "\<forall>e\<in>set (send_queue_mMTC s).
                ev_type e = mMTC_ARRIVAL \<and> node_id e < length (pool (Slices_mMTC s))"
      and mu: "stats (stats_obj s) ''no_missed_urllc'' = Some mu"
      and mm: "stats (stats_obj s) ''no_missed_mmtc'' = Some mm"
  shows "\<exists>s'. handle_expired_events s = Inr s'
     \<and> send_queue_URLLC s' = unexpired (time s) (send_queue_URLLC s)
     \<and> send_queue_mMTC s' = unexpired (time s) (send_queue_mMTC s)
     \<and> (\<forall>e\<in>set (expired (time s) (send_queue_URLLC s)).
            \<not> active (pool (Slices_URLLC s') ! node_id e))
     \<and> (\<forall>e\<in>set (expired (time s) (send_queue_mMTC s)).
            \<not> active (pool (Slices_mMTC s') ! node_id e))
     \<and> stats (stats_obj s') ''no_missed_urllc''
          = Some (mu + int (length (expired (time s) (send_queue_URLLC s))))
     \<and> stats (stats_obj s') ''no_missed_mmtc''
          = Some (mm + int (length (expired (time s) (send_queue_mMTC s))))
     \<and> trace s' = trace s @ map (\<lambda>e. get_entry e (time s) False)
                       (rev (expired (time s) (send_queue_URLLC s))
                        @ rev (expired (time s) (send_queue_mMTC s)))
     \<and> handle_departure s =
           (case assign_pilots s' of
              Inl err \<Rightarrow> Inl err
            | Inr s2 \<Rightarrow>
                Inr (s2\<lparr>event_heap :=
                           push (departure_event (time s2 + frame_length s2)) (event_heap s2)\<rparr>))"
proof -
  have ia: "\<forall>e\<in>set (expired (time s) (send_queue_URLLC s)). node_id e < length (pool (Slices_URLLC s))"
    using A by (simp add: expired_def)
  have ib: "\<forall>e\<in>set (expired (time s) (send_queue_mMTC s)). node_id e < length (pool (Slices_mMTC s))"
    using B by (simp add: expired_def)
  show ?thesis
    unfolding handle_departure_def handle_expired_events_eq [OF A B mu mm]
    using ia ib by (simp add: deactivate_nth)
qed

theorem handle_expired_events_scenario_C:
  "(case handle_expired_events scenario_C of
      Inl err \<Rightarrow> False
    | Inr s' \<Rightarrow>
        send_queue_mMTC s' = []
        \<and> stats (stats_obj s') ''no_missed_mmtc'' = Some 1
        \<and> trace s' = [get_entry (arrival mMTC_ARRIVAL 0 5 1) 6 False])"
proof -
  from handle_expired_events_removes_exactly_expired [of scenario_C 0 0]
  obtain s' where "handle_expired_events scenario_C = Inr s'"
    and "send_queue_mMTC s' = unexpired (time scenario_C) (send_queue_mMTC scenario_C)"
    and "stats (stats_obj s') ''no_missed_mmtc''
          = Some (0 + int (length (expired (time scenario_C) (send_queue_mMTC scenario_C))))"
    and "trace s' = trace scenario_C @ map (\<lambda>e. get_entry e (time scenario_C) False)
                       (rev (expired (time scenario_C) (send_queue_URLLC scenario_C))
                        @ rev (expired (time scenario_C) (send_queue_mMTC scenario_C)))"
    by (auto simp: scenario_C_def mk_sim_def Stats_init_def arrival_def mk_node_def)
  then show ?thesis
    by (simp add: scenario_C_def mk_sim_def arrival_def expired_def unexpired_def)
qed


section \<open>Overlap resolution\<close>

lemma same_node_remove1: "same_node i (remove1 x q) = remove1 x (same_node i q)"
  by (simp add: same_node_def filter_remove1)

lemma same_node_member: "e \<in> set (same_node i evs) \<longleftrightarrow> e \<in> set evs \<and> node_id e = i"
  by (auto simp: same_node_def)

lemma same_node_append: "same_node i (xs @ ys) = same_node i xs @ same_node i ys"
  by (simp add: same_node_def)

lemma set_serve_all: "set (serve_all evs q) \<subseteq> set q"
proof (induction evs arbitrary: q)
  case Nil
  then show ?case by (simp add: serve_all_def)
next
  case (Cons e evs)
  have "set (serve_all evs (remove1 e q)) \<subseteq> set (remove1 e q)" by (rule Cons.IH)
  also have "\<dots> \<subseteq> set q" by (rule set_remove1_subset)
  finally show ?case by (simp add: serve_all_def)
qed

lemma earliest_subset: "set (earliest evs) \<subseteq> set evs"
  unfolding earliest_def using set_take_subset [of 1 "sort_key dead_time evs"] by simp

lemma earliest_single: "earliest [e] = [e]"
  by (simp add: earliest_def)

lemma earliest_Cons: "sort_key dead_time evs = first # others \<Longrightarrow> earliest evs = [first]"
  by (simp add: earliest_def)

lemma earliest_least:
  assumes "e \<in> set (earliest evs)" and "e' \<in> set evs"
  shows "dead_time e \<le> dead_time e'"
proof -
  obtain first others where so: "sort_key dead_time evs = first # others"
    using assms(2) by (cases "sort_key dead_time evs") (auto dest: arg_cong [where f = set])
  then have "e = first" using assms(1) by (simp add: earliest_def)
  moreover have "sorted (map dead_time (first # others))"
    using sorted_sort_key [of dead_time evs] so by simp
  moreover have "e' \<in> set (first # others)"
    using assms(2) so set_sort [of dead_time evs] by simp
  ultimately show ?thesis by auto
qed

lemma remove1_other_node:
  "node_id x \<noteq> i \<Longrightarrow> remove1 x (serve_all evs (same_node i q)) = serve_all evs (same_node i q)"
  "node_id x \<noteq> i \<Longrightarrow> remove1 x (same_node i q) = same_node i q"
proof -
  assume n: "node_id x \<noteq> i"
  then have "x \<notin> set (same_node i q)" by (simp add: same_node_member)
  then show "remove1 x (same_node i q) = same_node i q" by (rule remove1_idem)
  from \<open>x \<notin> set (same_node i q)\<close> set_serve_all [of evs "same_node i q"]
  have "x \<notin> set (serve_all evs (same_node i q))" by auto
  then show "remove1 x (serve_all evs (same_node i q)) = serve_all evs (same_node i q)"
    by (rule remove1_idem)
qed


lemma overlap_inv_step:
  assumes inv: "overlap_inv t EA q0 sl0 tr0 D (q, sl, tr, ov)"
      and jD: "j \<notin> D"
      and jv: "j < length (pool sl0)"
      and x: "earliest (same_node j EA) = [x]"
      and nx: "node_id x = j"
      and ov': "set ov' = set ov \<union> {e \<in> set EA. node_id e = j \<and> length (same_node j EA) \<noteq> 1}"
  shows "overlap_inv t EA q0 sl0 tr0 (insert j D)
           (remove1 x q,
            set_node sl j ((pool sl ! j)\<lparr>active := (length (same_node j EA) \<noteq> 1)\<rparr>),
            tr @ [get_entry x t True], ov')"
proof -
  from inv have len: "length (pool sl) = length (pool sl0)"
    by (simp add: overlap_inv_def)
  from inv have ov: "set ov = {e \<in> set EA. node_id e \<in> D \<and> length (same_node (node_id e) EA) \<noteq> 1}"
    by (simp add: overlap_inv_def)
  from inv have qs: "same_node i q =
        (if i \<in> D then serve_all (earliest (same_node i EA)) (same_node i q0) else same_node i q0)" for i
    by (simp add: overlap_inv_def)
  from inv have pl: "i < length (pool sl0) \<Longrightarrow> pool sl ! i =
        (if i \<in> D then (pool sl0 ! i)\<lparr>active := (length (same_node i EA) \<noteq> 1)\<rparr> else pool sl0 ! i)" for i
    by (simp add: overlap_inv_def)
  from inv obtain S where tr: "tr = tr0 @ successes t S"
    and Ss: "\<forall>i. same_node i S = (if i \<in> D then earliest (same_node i EA) else [])"
    by (auto simp: overlap_inv_def)
  have a: "length (pool (set_node sl j ((pool sl ! j)\<lparr>active := (length (same_node j EA) \<noteq> 1)\<rparr>)))
             = length (pool sl0)"
    by (simp add: set_node_def len)
  have b: "set ov' = {e \<in> set EA. node_id e \<in> insert j D \<and> length (same_node (node_id e) EA) \<noteq> 1}"
    unfolding ov' ov by auto
  have c: "same_node i (remove1 x q) =
             (if i \<in> insert j D then serve_all (earliest (same_node i EA)) (same_node i q0)
              else same_node i q0)" for i
  proof (cases "i = j")
    case True
    then show ?thesis
      using jD by (simp add: same_node_remove1 qs x serve_all_def)
  next
    case False
    with nx have "node_id x \<noteq> i" by simp
    then show ?thesis
      using False by (simp add: same_node_remove1 qs remove1_other_node)
  qed
  have d: "\<exists>S'. tr @ [get_entry x t True] = tr0 @ successes t S'
              \<and> (\<forall>i. same_node i S' = (if i \<in> insert j D then earliest (same_node i EA) else []))"
  proof (intro exI [of _ "S @ [x]"] conjI allI)
    show "tr @ [get_entry x t True] = tr0 @ successes t (S @ [x])"
      by (simp add: tr successes_def)
    fix i
    show "same_node i (S @ [x]) = (if i \<in> insert j D then earliest (same_node i EA) else [])"
    proof (cases "i = j")
      case True
      then show ?thesis
        using Ss jD nx x by (simp add: same_node_append) (simp add: same_node_def)
    next
      case False
      then show ?thesis
        using Ss nx by (simp add: same_node_append) (simp add: same_node_def)
    qed
  qed
  have e: "pool (set_node sl j ((pool sl ! j)\<lparr>active := (length (same_node j EA) \<noteq> 1)\<rparr>)) ! i =
             (if i \<in> insert j D then (pool sl0 ! i)\<lparr>active := (length (same_node i EA) \<noteq> 1)\<rparr>
              else pool sl0 ! i)" if "i < length (pool sl0)" for i
  proof (cases "i = j")
    case True
    then show ?thesis
      using jv jD pl [OF jv] by (simp add: set_node_def len)
  next
    case False
    then show ?thesis
      using that pl [OF that] by (simp add: set_node_def len)
  qed
  show ?thesis
    unfolding overlap_inv_def prod.case
    using a b c d e by blast
qed


lemma overlap_step:
  assumes valid: "\<forall>e\<in>set EA. node_id e < length (pool sl0)"
      and EA: "EA = pre @ ev # evs"
      and inv: "overlap_inv t EA q0 sl0 tr0 (node_id ` set pre) (q, sl, tr, ov)"
  shows "\<exists>st1. overlap_loop t EA (ev # evs) (q, sl, tr, ov) = overlap_loop t EA evs st1
              \<and> overlap_inv t EA q0 sl0 tr0 (node_id ` set (pre @ [ev])) st1"
proof -
  let ?D = "node_id ` set pre"
  let ?j = "node_id ev"
  let ?G = "same_node ?j EA"
  from inv have len: "length (pool sl) = length (pool sl0)"
    by (simp add: overlap_inv_def)
  from inv have ov: "set ov = {e \<in> set EA. node_id e \<in> ?D \<and> length (same_node (node_id e) EA) \<noteq> 1}"
    by (simp add: overlap_inv_def)
  have evEA: "ev \<in> set EA" using EA by simp
  have jv0: "?j < length (pool sl0)" using valid evEA by simp
  then have jv: "?j < length (pool sl)" using len by simp
  have evG: "ev \<in> set ?G" using evEA by (simp add: same_node_member)
  have D': "node_id ` set (pre @ [ev]) = insert ?j ?D" by simp
  have G_def: "filter (\<lambda>e. node_id e = ?j) EA = ?G" by (simp add: same_node_def)
  show ?thesis
  proof (cases "ev \<in> set ov")
    case True
    then have "?j \<in> ?D" using ov by simp
    then have same: "insert ?j ?D = ?D" by auto
    have run: "overlap_loop t EA (ev # evs) (q, sl, tr, ov) = overlap_loop t EA evs (q, sl, tr, ov)"
      using True by simp
    from inv have "overlap_inv t EA q0 sl0 tr0 (node_id ` set (pre @ [ev])) (q, sl, tr, ov)"
      unfolding D' same .
    with run show ?thesis by blast
  next
    case False
    then have notboth: "\<not> (?j \<in> ?D \<and> length ?G \<noteq> 1)" using ov evEA by simp
    have jD: "?j \<notin> ?D"
    proof
      assume in_D: "?j \<in> ?D"
      then obtain e' where "e' \<in> set pre" "node_id e' = ?j" by auto
      then have "e' \<in> set (same_node ?j pre)" by (simp add: same_node_member)
      then have "length (same_node ?j pre) \<ge> 1" by (cases "same_node ?j pre") simp_all
      then have "length ?G \<ge> 2" unfolding EA by (simp add: same_node_append same_node_def)
      with notboth in_D show False by simp
    qed
    show ?thesis
    proof (cases "length ?G = 1")
      case True
      then have G: "?G = [ev]" using evG by (cases ?G) auto
      let ?st1 = "(remove1 ev q, set_node sl ?j ((pool sl ! ?j)\<lparr>active := False\<rparr>),
                   tr @ [get_entry ev t True], ov)"
      have run: "overlap_loop t EA (ev # evs) (q, sl, tr, ov) = overlap_loop t EA evs ?st1"
        using False True jv by (simp add: G_def get_node_def)
      have "overlap_inv t EA q0 sl0 tr0 (insert ?j ?D)
              (remove1 ev q, set_node sl ?j ((pool sl ! ?j)\<lparr>active := (length ?G \<noteq> 1)\<rparr>),
               tr @ [get_entry ev t True], ov)"
        by (rule overlap_inv_step [OF inv jD jv0]) (simp_all add: G earliest_single)
      then have "overlap_inv t EA q0 sl0 tr0 (insert ?j ?D) ?st1"
        using True by simp
      with run show ?thesis unfolding D' by blast
    next
      case multi: False
      obtain first others where so: "sort_key dead_time ?G = first # others"
        using evG by (cases "sort_key dead_time ?G") (auto dest: arg_cong [where f = set])
      have "first \<in> set (sort_key dead_time ?G)"
        by (simp add: so)
      then have fG: "first \<in> set ?G"
        by simp
      then have nf: "node_id first = ?j" by (simp add: same_node_member)
      let ?st1 = "(remove1 first q, set_node sl ?j ((pool sl ! ?j)\<lparr>active := True\<rparr>),
                   tr @ [get_entry first t True], ov @ (first # others))"
      have run: "overlap_loop t EA (ev # evs) (q, sl, tr, ov) = overlap_loop t EA evs ?st1"
        using False multi jv so by (simp add: G_def get_node_def)
      have setov: "set (ov @ (first # others)) =
                     set ov \<union> {e \<in> set EA. node_id e = ?j \<and> length ?G \<noteq> 1}"
      proof -
        have "set (first # others) = set (sort_key dead_time ?G)"
          by (simp only: so)
        also have "\<dots> = set ?G"
          by simp
        also have "\<dots> = {e \<in> set EA. node_id e = ?j}"
          by (simp add: same_node_def)
        also have "\<dots> = {e \<in> set EA. node_id e = ?j \<and> length ?G \<noteq> 1}"
          using multi by simp
        finally have "set (first # others) = {e \<in> set EA. node_id e = ?j \<and> length ?G \<noteq> 1}" .
        then show ?thesis by (simp only: set_append)
      qed
      have "overlap_inv t EA q0 sl0 tr0 (insert ?j ?D)
              (remove1 first q, set_node sl ?j ((pool sl ! ?j)\<lparr>active := (length ?G \<noteq> 1)\<rparr>),
               tr @ [get_entry first t True], ov @ (first # others))"
        by (rule overlap_inv_step [OF inv jD jv0 earliest_Cons [OF so] nf setov])
      then have "overlap_inv t EA q0 sl0 tr0 (insert ?j ?D) ?st1"
        using multi by simp
      with run show ?thesis unfolding D' by blast
    qed
  qed
qed

lemma overlap_loop_inv:
  assumes valid: "\<forall>e\<in>set EA. node_id e < length (pool sl0)"
  shows "EA = pre @ evs \<Longrightarrow> overlap_inv t EA q0 sl0 tr0 (node_id ` set pre) st \<Longrightarrow>
         \<exists>st'. overlap_loop t EA evs st = Inr st'
               \<and> overlap_inv t EA q0 sl0 tr0 (node_id ` set EA) st'"
proof (induction evs arbitrary: pre st)
  case Nil
  then show ?case by (cases st) simp
next
  case (Cons ev evs)
  obtain q sl tr ov where st: "st = (q, sl, tr, ov)" by (cases st) auto
  from overlap_step [OF valid Cons.prems(1) Cons.prems(2) [unfolded st]]
  obtain st1 where run: "overlap_loop t EA (ev # evs) (q, sl, tr, ov) = overlap_loop t EA evs st1"
    and inv1: "overlap_inv t EA q0 sl0 tr0 (node_id ` set (pre @ [ev])) st1"
    by blast
  from Cons.prems(1) have "EA = (pre @ [ev]) @ evs" by simp
  from Cons.IH [OF this inv1] show ?case unfolding st run .
qed

lemma filter_assigned_eq:
  "\<forall>e\<in>set q. node_id e < length (pool sl) \<Longrightarrow>
   filter_assigned sl q = Inr (filter (\<lambda>e. assigned (pool sl ! node_id e)) q)"
  by (induction q) (simp_all add: get_node_def)

lemma overlap_inv_init: "overlap_inv t EA q0 sl0 tr0 {} (q0, sl0, tr0, [])"
  by (simp add: overlap_inv_def successes_def same_node_def)


lemma length_earliest: "length (earliest evs) \<le> 1"
  by (simp add: earliest_def)

lemma earliest_Nil: "earliest [] = []"
  by (simp add: earliest_def)

lemma same_node_assigned:
  "same_node i (filter (\<lambda>e. assigned (pool sl ! node_id e)) q) =
     (if assigned (pool sl ! i) then same_node i q else [])"
  by (induction q) (auto simp: same_node_def)

lemma node_of_assigned:
  "i \<in> node_id ` set (filter (\<lambda>e. assigned (pool sl ! node_id e)) q) \<longleftrightarrow>
     assigned (pool sl ! i) \<and> same_node i q \<noteq> []"
  by (auto simp: same_node_def filter_empty_conv)

text \<open>
  Claim C4. When every queued class-A request names a node of the pool, overlap
  resolution succeeds and serves at most one request per node. For an assigned node it
  serves the earliest-deadline one of its live pending requests (none has an earlier
  deadline) and leaves the others queued; with more than one pending request the node
  is left active, with exactly one the node's \<open>active\<close> flag is cleared. A node that
  is not assigned is not served and keeps its requests and its flags. \<open>S\<close> is the list
  of the events served by the pass. Scenario D is the witness.
\<close>

theorem handle_send_queue_one_per_assigned_node:
  assumes valid: "\<forall>e\<in>set (send_queue_URLLC s). node_id e < length (pool (Slices_URLLC s))"
  shows "\<exists>s' S. handle_send_queue s = Inr s'
      \<and> trace s' = trace s @ successes (time s) S
      \<and> (\<forall>i. length (same_node i S) \<le> 1)
      \<and> (\<forall>i<length (pool (Slices_URLLC s)).
            if assigned (pool (Slices_URLLC s) ! i) then
                same_node i S = earliest (pending s i)
              \<and> (\<forall>e\<in>set (same_node i S). \<forall>e'\<in>set (pending s i). dead_time e \<le> dead_time e')
              \<and> pending s' i = serve_all (same_node i S) (pending s i)
              \<and> (length (pending s i) > 1 \<longrightarrow> active (pool (Slices_URLLC s') ! i))
              \<and> (length (pending s i) = 1 \<longrightarrow> \<not> active (pool (Slices_URLLC s') ! i))
            else same_node i S = [] \<and> pending s' i = pending s i
              \<and> pool (Slices_URLLC s') ! i = pool (Slices_URLLC s) ! i)"
proof -
  define q0 where "q0 = send_queue_URLLC s"
  define sl0 where "sl0 = Slices_URLLC s"
  define EA where "EA = filter (\<lambda>e. assigned (pool sl0 ! node_id e)) q0"
  define D where "D = node_id ` set EA"
  have valid': "\<forall>e\<in>set q0. node_id e < length (pool sl0)"
    using valid by (simp add: q0_def sl0_def)
  have vEA: "\<forall>e\<in>set EA. node_id e < length (pool sl0)"
    using valid' by (simp add: EA_def)
  have G: "same_node i EA = (if assigned (pool sl0 ! i) then same_node i q0 else [])" for i
    unfolding EA_def by (rule same_node_assigned)
  have Dm: "i \<in> D \<longleftrightarrow> assigned (pool sl0 ! i) \<and> same_node i q0 \<noteq> []" for i
    unfolding D_def EA_def by (rule node_of_assigned)
  have pend: "pending s i = same_node i q0" for i
    by (simp add: pending_def q0_def)
  have init: "overlap_inv (time s) EA q0 sl0 (trace s) (node_id ` set []) (q0, sl0, trace s, [])"
    using overlap_inv_init [of "time s" EA q0 sl0 "trace s"] by simp
  have "EA = [] @ EA" by simp
  from overlap_loop_inv [OF vEA this init]
  obtain st' where run: "overlap_loop (time s) EA EA (q0, sl0, trace s, []) = Inr st'"
    and inv: "overlap_inv (time s) EA q0 sl0 (trace s) D st'"
    unfolding D_def by blast
  obtain q sl tr ov where st': "st' = (q, sl, tr, ov)" by (cases st') auto
  from inv have qs: "same_node i q =
        (if i \<in> D then serve_all (earliest (same_node i EA)) (same_node i q0)
         else same_node i q0)" for i
    by (simp add: overlap_inv_def st')
  from inv have pl: "i < length (pool sl0) \<Longrightarrow> pool sl ! i =
        (if i \<in> D then (pool sl0 ! i)\<lparr>active := (length (same_node i EA) \<noteq> 1)\<rparr>
         else pool sl0 ! i)" for i
    by (simp add: overlap_inv_def st')
  from inv obtain S where tr: "tr = trace s @ successes (time s) S"
    and Ss: "\<And>i. same_node i S = (if i \<in> D then earliest (same_node i EA) else [])"
    by (auto simp: overlap_inv_def st')
  define s' where "s' = s\<lparr>send_queue_URLLC := q, Slices_URLLC := sl, trace := tr\<rparr>"
  have fa: "filter_assigned (Slices_URLLC s) (send_queue_URLLC s) = Inr EA"
    unfolding EA_def q0_def sl0_def by (rule filter_assigned_eq [OF valid])
  have hs: "handle_send_queue s = Inr s'"
    using run by (simp add: handle_send_queue_def fa st' s'_def q0_def sl0_def)
  have tr': "trace s' = trace s @ successes (time s) S"
    by (simp add: s'_def tr)
  have pend': "pending s' i = same_node i q" for i
    by (simp add: pending_def s'_def)
  have pool': "Slices_URLLC s' = sl"
    by (simp add: s'_def)
  have one: "\<forall>i. length (same_node i S) \<le> 1"
  proof
    fix i
    show "length (same_node i S) \<le> 1"
    proof (cases "i \<in> D")
      case True
      then have "same_node i S = earliest (same_node i EA)" by (simp only: Ss if_True)
      then show ?thesis by (simp only: length_earliest)
    next
      case False
      then have "same_node i S = []" by (simp only: Ss if_False)
      then show ?thesis by simp
    qed
  qed
  have per_node:
    "\<forall>i<length (pool (Slices_URLLC s)).
       if assigned (pool (Slices_URLLC s) ! i) then
          same_node i S = earliest (pending s i)
        \<and> (\<forall>e\<in>set (same_node i S). \<forall>e'\<in>set (pending s i). dead_time e \<le> dead_time e')
        \<and> pending s' i = serve_all (same_node i S) (pending s i)
        \<and> (length (pending s i) > 1 \<longrightarrow> active (pool (Slices_URLLC s') ! i))
        \<and> (length (pending s i) = 1 \<longrightarrow> \<not> active (pool (Slices_URLLC s') ! i))
       else same_node i S = [] \<and> pending s' i = pending s i
        \<and> pool (Slices_URLLC s') ! i = pool (Slices_URLLC s) ! i"
  proof (intro allI impI)
    fix i
    assume "i < length (pool (Slices_URLLC s))"
    then have i: "i < length (pool sl0)" by (simp add: sl0_def)
    show "if assigned (pool (Slices_URLLC s) ! i) then
          same_node i S = earliest (pending s i)
        \<and> (\<forall>e\<in>set (same_node i S). \<forall>e'\<in>set (pending s i). dead_time e \<le> dead_time e')
        \<and> pending s' i = serve_all (same_node i S) (pending s i)
        \<and> (length (pending s i) > 1 \<longrightarrow> active (pool (Slices_URLLC s') ! i))
        \<and> (length (pending s i) = 1 \<longrightarrow> \<not> active (pool (Slices_URLLC s') ! i))
       else same_node i S = [] \<and> pending s' i = pending s i
        \<and> pool (Slices_URLLC s') ! i = pool (Slices_URLLC s) ! i"
      unfolding pend pend' pool' sl0_def [symmetric]
    proof (cases "assigned (pool sl0 ! i)")
      case False
      then have nD: "i \<notin> D" by (simp add: Dm)
      have "same_node i S = []" using nD by (simp only: Ss if_False)
      moreover have "same_node i q = same_node i q0" using nD by (simp only: qs if_False)
      moreover have "pool sl ! i = pool sl0 ! i" using nD pl [OF i] by simp
      ultimately show "if assigned (pool sl0 ! i) then
          same_node i S = earliest (same_node i q0)
        \<and> (\<forall>e\<in>set (same_node i S). \<forall>e'\<in>set (same_node i q0). dead_time e \<le> dead_time e')
        \<and> same_node i q = serve_all (same_node i S) (same_node i q0)
        \<and> (length (same_node i q0) > 1 \<longrightarrow> active (pool sl ! i))
        \<and> (length (same_node i q0) = 1 \<longrightarrow> \<not> active (pool sl ! i))
       else same_node i S = [] \<and> same_node i q = same_node i q0
        \<and> pool sl ! i = pool sl0 ! i"
        using False by simp
    next
      case True
      then have Gi: "same_node i EA = same_node i q0" by (simp add: G)
      have S_i: "same_node i S = earliest (same_node i q0)"
      proof (cases "i \<in> D")
        case True
        then show ?thesis by (simp add: Ss Gi)
      next
        case False
        then have "same_node i q0 = []" using True Dm [of i] by simp
        with False show ?thesis by (simp add: Ss earliest_Nil)
      qed
      have least: "\<forall>e\<in>set (same_node i S). \<forall>e'\<in>set (same_node i q0). dead_time e \<le> dead_time e'"
        unfolding S_i by (blast intro: earliest_least)
      have queue: "same_node i q = serve_all (same_node i S) (same_node i q0)"
      proof (cases "i \<in> D")
        case True
        then show ?thesis by (simp add: qs S_i Gi)
      next
        case False
        then show ?thesis by (simp add: qs Ss serve_all_def)
      qed
      have many: "active (pool sl ! i)" if "length (same_node i q0) > 1"
      proof -
        from that have "same_node i q0 \<noteq> []" by auto
        then have "i \<in> D" using True by (simp add: Dm)
        then show ?thesis using that by (simp add: pl [OF i] Gi)
      qed
      have single: "\<not> active (pool sl ! i)" if "length (same_node i q0) = 1"
      proof -
        from that have "same_node i q0 \<noteq> []" by auto
        then have "i \<in> D" using True by (simp add: Dm)
        then show ?thesis using that by (simp add: pl [OF i] Gi)
      qed
      show "if assigned (pool sl0 ! i) then
          same_node i S = earliest (same_node i q0)
        \<and> (\<forall>e\<in>set (same_node i S). \<forall>e'\<in>set (same_node i q0). dead_time e \<le> dead_time e')
        \<and> same_node i q = serve_all (same_node i S) (same_node i q0)
        \<and> (length (same_node i q0) > 1 \<longrightarrow> active (pool sl ! i))
        \<and> (length (same_node i q0) = 1 \<longrightarrow> \<not> active (pool sl ! i))
       else same_node i S = [] \<and> same_node i q = same_node i q0
        \<and> pool sl ! i = pool sl0 ! i"
        using True S_i least queue many single by (simp only: if_True) blast
    qed
  qed
  from hs tr' one per_node show ?thesis by blast
qed


theorem handle_send_queue_scenario_D:
  "(case handle_send_queue scenario_D of
      Inl err \<Rightarrow> False
    | Inr s' \<Rightarrow>
        same_node 0 (served (trace s')) = [arrival URLLC_ARRIVAL 0 9 1]
        \<and> pending s' 0 = [arrival URLLC_ARRIVAL 0 12 2]
        \<and> active (pool (Slices_URLLC s') ! 0))"
proof -
  have v: "\<forall>e\<in>set (send_queue_URLLC scenario_D).
             node_id e < length (pool (Slices_URLLC scenario_D))"
    by (simp add: scenario_D_def input_defs)
  from handle_send_queue_one_per_assigned_node [OF v]
  obtain s' S where hs: "handle_send_queue scenario_D = Inr s'"
    and tr: "trace s' = trace scenario_D @ successes (time scenario_D) S"
    and per_node: "\<forall>i<length (pool (Slices_URLLC scenario_D)).
            if assigned (pool (Slices_URLLC scenario_D) ! i) then
                same_node i S = earliest (pending scenario_D i)
              \<and> (\<forall>e\<in>set (same_node i S). \<forall>e'\<in>set (pending scenario_D i).
                     dead_time e \<le> dead_time e')
              \<and> pending s' i = serve_all (same_node i S) (pending scenario_D i)
              \<and> (length (pending scenario_D i) > 1 \<longrightarrow> active (pool (Slices_URLLC s') ! i))
              \<and> (length (pending scenario_D i) = 1 \<longrightarrow> \<not> active (pool (Slices_URLLC s') ! i))
            else same_node i S = [] \<and> pending s' i = pending scenario_D i
              \<and> pool (Slices_URLLC s') ! i = pool (Slices_URLLC scenario_D) ! i"
    by blast
  have n0: "0 < length (pool (Slices_URLLC scenario_D))"
    and a0: "assigned (pool (Slices_URLLC scenario_D) ! 0)"
    by (simp_all add: scenario_D_def input_defs)
  have p0: "pending scenario_D 0 = [arrival URLLC_ARRIVAL 0 12 2, arrival URLLC_ARRIVAL 0 9 1]"
    by (simp add: pending_def same_node_def scenario_D_def input_defs)
  have e0: "earliest (pending scenario_D 0) = [arrival URLLC_ARRIVAL 0 9 1]"
    by (simp add: p0 earliest_def arrival_def)
  from per_node [rule_format, OF n0] a0
  have all0: "same_node 0 S = earliest (pending scenario_D 0)
      \<and> (\<forall>e\<in>set (same_node 0 S). \<forall>e'\<in>set (pending scenario_D 0).
             dead_time e \<le> dead_time e')
      \<and> pending s' 0 = serve_all (same_node 0 S) (pending scenario_D 0)
      \<and> (length (pending scenario_D 0) > 1 \<longrightarrow> active (pool (Slices_URLLC s') ! 0))
      \<and> (length (pending scenario_D 0) = 1 \<longrightarrow> \<not> active (pool (Slices_URLLC s') ! 0))"
    by simp
  then have S0: "same_node 0 S = earliest (pending scenario_D 0)"
    and q0: "pending s' 0 = serve_all (same_node 0 S) (pending scenario_D 0)"
    and act: "length (pending scenario_D 0) > 1 \<longrightarrow> active (pool (Slices_URLLC s') ! 0)"
    by blast+
  have "served (trace s') = S"
    by (simp add: tr served_def successes_def get_entry_def comp_def scenario_D_def mk_sim_def)
  then have one: "same_node 0 (served (trace s')) = [arrival URLLC_ARRIVAL 0 9 1]"
    by (simp add: S0 e0)
  have two: "pending s' 0 = [arrival URLLC_ARRIVAL 0 12 2]"
    unfolding q0 S0 e0 by (simp add: p0 serve_all_def arrival_def)
  have three: "active (pool (Slices_URLLC s') ! 0)"
    using act by (simp add: p0)
  show ?thesis
    using one two three by (simp add: hs)
qed

section \<open>The budget of the queue-aware passes\<close>

text \<open>
  A strict-priority pass with a non-negative budget serves requests whose costs sum to
  at most the budget. This covers FCFS\_FCFS and RRQ\_RRQ, which are such passes.
\<close>

lemma fit_count_sum: "0 \<le> b \<Longrightarrow> sum_list (take (fit_count b cs) cs) \<le> b"
proof (induction cs arbitrary: b)
  case Nil
  then show ?case by simp
next
  case (Cons c cs)
  show ?case
  proof (cases "b - c \<ge> 0")
    case True
    from Cons.IH [OF True] have "sum_list (take (fit_count (b - c) cs) cs) \<le> b - c" .
    with True show ?thesis by simp
  next
    case False
    with Cons.prems show ?thesis by simp
  qed
qed

lemma priority_pass_within_budget:
  assumes "0 \<le> no_pilots s"
  shows "sum_list (map (node_cost (Slices_URLLC s)) (class_A_served s as))
         + sum_list (map (node_cost (Slices_mMTC s)) (class_B_served s as bs)) \<le> no_pilots s"
proof -
  have A: "sum_list (map (node_cost (Slices_URLLC s)) (class_A_served s as)) \<le> no_pilots s"
    using fit_count_sum [OF assms, of "map (node_cost (Slices_URLLC s)) as"]
    by (simp add: class_A_served_def take_map)
  show ?thesis
  proof (cases "length (class_A_served s as) = length as \<and> leftover s as > 0")
    case True
    then have "0 \<le> leftover s as" by simp
    from fit_count_sum [OF this, of "map (node_cost (Slices_mMTC s)) bs"] True
    have "sum_list (map (node_cost (Slices_mMTC s)) (class_B_served s as bs)) \<le> leftover s as"
      by (simp add: class_B_served_def take_map)
    then show ?thesis by (simp add: leftover_def)
  next
    case False
    then have "class_B_served s as bs = []" by (auto simp: class_B_served_def)
    with A show ?thesis by simp
  qed
qed

section \<open>The superframe counter of the RRN policies\<close>

text \<open>
  With an integral ratio \<open>r > 0\<close> of deadline span and frame length and an integral
  counter \<open>k\<close>, the grant pass moves the counter to \<open>(k + 1) mod r\<close> and starts from
  index 0 exactly when that is 1, and from the cursor otherwise. With \<open>r = 1\<close> the
  counter stays 0 and the pass always starts from the cursor, which never decreases.
\<close>

lemma py_mod_of_int: "0 < r \<Longrightarrow> py_mod (of_int k) (of_int r) = Inr (of_int (k mod r))"
proof -
  assume r: "0 < r"
  have "(of_int k :: real) - of_int \<lfloor>(of_int k :: real) / of_int r\<rfloor> * of_int r
          = of_int (k - (k div r) * r)"
    by (simp add: floor_divide_of_int_eq)
  also have "k - (k div r) * r = k mod r"
    by (simp add: minus_div_mult_eq_mod)
  finally show ?thesis using r by (simp add: py_mod_def)
qed

lemma grant_pass_superframe:
  assumes "frame_loops s = of_int r" and "0 < r" and "frame_counter s = of_int k"
  shows "grant_pass s =
     (let start_ind = (if (k + 1) mod r = 1 then 0 else node_pointer s) in
      case grant_loop [start_ind..<length (pool (Slices_URLLC s))]
             (no_pilots s, start_ind, Slices_URLLC s) of
        (np, ptr, sl) \<Rightarrow>
          Inr (s\<lparr>frame_counter := of_int ((k + 1) mod r), node_pointer := ptr,
                 Slices_URLLC := sl\<rparr>, np))"
proof -
  have "py_mod (frame_counter s + 1) (frame_loops s) = Inr (of_int ((k + 1) mod r))"
    using py_mod_of_int [OF assms(2), of "k + 1"] assms(1,3) by simp
  moreover have "(of_int ((k + 1) mod r) = (1::real)) = ((k + 1) mod r = 1)"
    by (metis of_int_eq_1_iff)
  ultimately show ?thesis
    by (simp add: grant_pass_def)
qed

lemma grant_pass_ratio_one:
  assumes "frame_loops s = 1" and "frame_counter s = of_int k"
  shows "grant_pass s =
     (case grant_loop [node_pointer s..<length (pool (Slices_URLLC s))]
             (no_pilots s, node_pointer s, Slices_URLLC s) of
        (np, ptr, sl) \<Rightarrow>
          Inr (s\<lparr>frame_counter := 0, node_pointer := ptr, Slices_URLLC := sl\<rparr>, np))"
  using grant_pass_superframe [of s 1 k] assms by (simp add: Let_def)

lemma grant_loop_pointer:
  "grant_loop inds (np, ptr, sl) = (np', ptr', sl') \<Longrightarrow> ptr \<le> ptr'"
proof (induction inds arbitrary: np ptr sl)
  case Nil
  then show ?case by simp
next
  case (Cons i inds)
  show ?case
  proof (cases "np - pilot_samples (pool sl ! i) \<ge> 0")
    case True
    with Cons.prems have "grant_loop inds (np - pilot_samples (pool sl ! i), ptr + 1,
        set_node sl i ((pool sl ! i)\<lparr>assigned := True\<rparr>)) = (np', ptr', sl')"
      by (simp add: Let_def)
    from Cons.IH [OF this] show ?thesis by simp
  next
    case False
    with Cons.prems show ?thesis by (simp add: Let_def)
  qed
qed

section \<open>The assigned flag\<close>

text \<open>
  The grant loop only stores True in \<open>assigned\<close>, and overlap resolution leaves the
  flag as it is: a node that is assigned before a pass of an RRN policy is assigned
  after it.
\<close>

lemma grant_loop_assigned:
  "grant_loop inds (np, ptr, sl) = (np', ptr', sl') \<Longrightarrow>
   length (pool sl') = length (pool sl)
   \<and> (\<forall>i<length (pool sl). assigned (pool sl ! i) \<longrightarrow> assigned (pool sl' ! i))"
proof (induction inds arbitrary: np ptr sl)
  case Nil
  then show ?case by simp
next
  case (Cons j inds)
  show ?case
  proof (cases "np - pilot_samples (pool sl ! j) \<ge> 0")
    case True
    let ?sl1 = "set_node sl j ((pool sl ! j)\<lparr>assigned := True\<rparr>)"
    from True Cons.prems have "grant_loop inds (np - pilot_samples (pool sl ! j), ptr + 1, ?sl1)
        = (np', ptr', sl')"
      by (simp add: Let_def)
    from Cons.IH [OF this]
    have len: "length (pool sl') = length (pool ?sl1)"
      and keep: "\<forall>i<length (pool ?sl1). assigned (pool ?sl1 ! i) \<longrightarrow> assigned (pool sl' ! i)"
      by simp_all
    have len1: "length (pool ?sl1) = length (pool sl)"
      by (simp add: set_node_def)
    have "assigned (pool ?sl1 ! i)" if "i < length (pool sl)" "assigned (pool sl ! i)" for i
      using that by (cases "i = j") (simp_all add: set_node_def)
    with len keep len1 show ?thesis by simp
  next
    case False
    with Cons.prems show ?thesis by (simp add: Let_def)
  qed
qed

lemma set_node_active_assigned:
  "get_node sl j = Inr n \<Longrightarrow>
   map assigned (pool (set_node sl j (n\<lparr>active := b\<rparr>))) = map assigned (pool sl)"
  by (auto simp: get_node_def set_node_def map_update list_update_same_conv split: if_splits)

lemma overlap_loop_assigned:
  "overlap_loop t EA evs (q, sl, tr, ov) = Inr (q', sl', tr', ov') \<Longrightarrow>
   map assigned (pool sl') = map assigned (pool sl)"
proof (induction evs arbitrary: q sl tr ov)
  case Nil
  then show ?case by simp
next
  case (Cons ev evs)
  show ?case
  proof (cases "ev \<in> set ov")
    case True
    with Cons.prems have "overlap_loop t EA evs (q, sl, tr, ov) = Inr (q', sl', tr', ov')"
      by simp
    from Cons.IH [OF this] show ?thesis .
  next
    case False
    from False Cons.prems obtain n where n: "get_node sl (node_id ev) = Inr n"
      by (cases "get_node sl (node_id ev)") (simp_all add: Let_def split: if_splits)
    from False Cons.prems n obtain q1 b tr1 ov1 where
      "overlap_loop t EA evs (q1, set_node sl (node_id ev) (n\<lparr>active := b\<rparr>), tr1, ov1)
         = Inr (q', sl', tr', ov')"
      by (auto simp: Let_def split: if_splits list.splits)
    from Cons.IH [OF this] set_node_active_assigned [OF n] show ?thesis by simp
  qed
qed

lemma handle_send_queue_assigned:
  "handle_send_queue s = Inr s' \<Longrightarrow>
   map assigned (pool (Slices_URLLC s')) = map assigned (pool (Slices_URLLC s))"
  by (auto simp: handle_send_queue_def split: sum.splits prod.splits dest: overlap_loop_assigned)

lemma grant_pass_assigned:
  assumes "grant_pass s = Inr (s1, np)"
  shows "length (pool (Slices_URLLC s1)) = length (pool (Slices_URLLC s))
   \<and> (\<forall>i<length (pool (Slices_URLLC s)).
         assigned (pool (Slices_URLLC s) ! i) \<longrightarrow> assigned (pool (Slices_URLLC s1) ! i))"
proof -
  from assms obtain fc where "py_mod (frame_counter s + 1) (frame_loops s) = Inr fc"
    by (cases "py_mod (frame_counter s + 1) (frame_loops s)") (simp_all add: grant_pass_def)
  with assms obtain start np' ptr sl where
    g: "grant_loop [start..<length (pool (Slices_URLLC s))] (no_pilots s, start, Slices_URLLC s)
          = (np', ptr, sl)"
    and s1: "Slices_URLLC s1 = sl"
    by (auto simp: grant_pass_def Let_def split: prod.splits)
  from grant_loop_assigned [OF g] s1 show ?thesis by simp
qed

lemma assigned_at:
  "map assigned xs = map assigned ys \<Longrightarrow> i < length ys \<Longrightarrow> assigned (xs ! i) = assigned (ys ! i)"
  by (metis length_map nth_map)

lemma rrn_fcfs_never_clears_assigned:
  assumes "round_robin_no_queue_info_first_come_first_served s = Inr s'"
      and "i < length (pool (Slices_URLLC s))" and "assigned (pool (Slices_URLLC s) ! i)"
  shows "assigned (pool (Slices_URLLC s') ! i)"
proof -
  from assms(1) obtain s1 np where g: "grant_pass s = Inr (s1, np)"
    by (cases "grant_pass s") (auto simp: round_robin_no_queue_info_first_come_first_served_def)
  from assms(1) g obtain s2 where h: "handle_send_queue s2 = Inr s'"
    and sl: "Slices_URLLC s2 = Slices_URLLC s1"
    by (auto simp: round_robin_no_queue_info_first_come_first_served_def
             split: if_splits sum.splits prod.splits)
  from grant_pass_assigned [OF g] assms(2,3)
  have "i < length (pool (Slices_URLLC s1))" "assigned (pool (Slices_URLLC s1) ! i)" by simp_all
  with assigned_at [OF handle_send_queue_assigned [OF h], of i] sl show ?thesis by simp
qed

lemma rrn_rrq_never_clears_assigned:
  assumes "round_robin_half_queue_info s = Inr s'"
      and "i < length (pool (Slices_URLLC s))" and "assigned (pool (Slices_URLLC s) ! i)"
  shows "assigned (pool (Slices_URLLC s') ! i)"
proof -
  from assms(1) obtain s1 np where g: "grant_pass s = Inr (s1, np)"
    by (cases "grant_pass s") (auto simp: round_robin_half_queue_info_def)
  from assms(1) g obtain s2 where h: "handle_send_queue s2 = Inr s'"
    and sl: "Slices_URLLC s2 = Slices_URLLC s1"
    by (auto simp: round_robin_half_queue_info_def split: if_splits sum.splits prod.splits)
  from grant_pass_assigned [OF g] assms(2,3)
  have "i < length (pool (Slices_URLLC s1))" "assigned (pool (Slices_URLLC s1) ! i)" by simp_all
  with assigned_at [OF handle_send_queue_assigned [OF h], of i] sl show ?thesis by simp
qed

section \<open>Evaluation at concrete inputs\<close>


text \<open>
  Claim C1. The claim: in every allocation pass of every policy the costs of the served
  requests sum to at most \<open>no_pilots\<close>, also under the RRN policies. The code under
  RRN\_FCFS: with a budget of 1 and two class-A nodes of cost 1, the first frame grants
  and serves node 0 and leaves it assigned; in the second frame the grant pass grants
  node 1 alone, and the overlap pass serves the pending requests of both nodes, at a
  total cost of 2.
\<close>

theorem rrn_fcfs_serves_beyond_budget:
  "(case round_robin_no_queue_info_first_come_first_served
           (mk_sim 1 ''RRN_FCFS'' 1 [mk_node 1 4, mk_node 1 4] []
              [arrival URLLC_ARRIVAL 0 5 1] []) of
      Inl err \<Rightarrow> False
    | Inr s1 \<Rightarrow>
        (case round_robin_no_queue_info_first_come_first_served
                (s1\<lparr>time := 2,
                    send_queue_URLLC := [arrival URLLC_ARRIVAL 1 6 3, arrival URLLC_ARRIVAL 0 6 2]\<rparr>) of
           Inl err \<Rightarrow> False
         | Inr s2 \<Rightarrow>
             served (drop (length (trace s1)) (trace s2))
               = [arrival URLLC_ARRIVAL 1 6 3, arrival URLLC_ARRIVAL 0 6 2]
             \<and> sum_list (map (event_cost s2) (served (drop (length (trace s1)) (trace s2)))) = 2
             \<and> no_pilots s2 = 1))"
  by (simp add: round_robin_no_queue_info_first_come_first_served_def grant_pass_def py_mod_def
        handle_send_queue_def event_cost_def inplace_loop.simps input_defs)

text \<open>
  Claim C3. The claim: the class-B pass of RRQ\_FCFS serves the requests in descending
  deadline order and skips none that fits. The code iterates over the send queue while
  removing from it: with a budget of 3, no class-A request and three class-B requests of cost 1 with
  deadlines 10, 20 and 30, it serves the requests with deadlines 30 and 10; the request
  with deadline 20 stays queued although a budget of 1 is left.
\<close>

theorem rrq_fcfs_skips_fitting_request:
  "(case round_robin_queue_first_come_first_served
           (mk_sim 0 ''RRQ_FCFS'' 3 [mk_node 1 4] [mk_node 1 100] []
              [arrival mMTC_ARRIVAL 0 10 1, arrival mMTC_ARRIVAL 0 20 2,
               arrival mMTC_ARRIVAL 0 30 3]) of
      Inl err \<Rightarrow> False
    | Inr s' \<Rightarrow>
        send_queue_mMTC s' = [arrival mMTC_ARRIVAL 0 20 2]
        \<and> served (trace s') = [arrival mMTC_ARRIVAL 0 30 3, arrival mMTC_ARRIVAL 0 10 1])"
  by (simp add: round_robin_queue_first_come_first_served_def inplace_loop.simps input_defs)

text \<open>
  Claim C7. The claim: under the RRN policies the cursor \<open>node_pointer\<close> is reset to 0
  once per superframe for every integral ratio of deadline span and frame length, the
  ratio 1 included. The code with the ratio 1 (\<open>frame_loops = 1\<close>): the counter is 0
  after every pass, never 1, and the cursor goes 1, 2, 2 over three frames without a
  reset (budget 1, two nodes of cost 1).
\<close>

theorem rrn_cursor_never_reset_at_ratio_one:
  "(case round_robin_no_queue_info_first_come_first_served
           ((mk_sim 1 ''RRN_FCFS'' 1 [mk_node 1 1, mk_node 1 1] [] [] [])\<lparr>frame_loops := 1\<rparr>) of
      Inl err \<Rightarrow> False
    | Inr s1 \<Rightarrow>
        frame_counter s1 = 0 \<and> node_pointer s1 = 1 \<and>
        (case round_robin_no_queue_info_first_come_first_served s1 of
           Inl err \<Rightarrow> False
         | Inr s2 \<Rightarrow>
             frame_counter s2 = 0 \<and> node_pointer s2 = 2 \<and>
             (case round_robin_no_queue_info_first_come_first_served s2 of
                Inl err \<Rightarrow> False
              | Inr s3 \<Rightarrow> frame_counter s3 = 0 \<and> node_pointer s3 = 2)))"
  by (simp add: round_robin_no_queue_info_first_come_first_served_def grant_pass_def py_mod_def
        handle_send_queue_def inplace_loop.simps input_defs)

text \<open>
  Claim C8. The claim: an \<open>assigned\<close> flag set in the grant pass of a frame is cleared
  by the end of the allocation pass of that frame. The code never stores False in
  \<open>assigned\<close>: after one pass of RRN\_RRQ from a state with no node assigned (budget
  1, two nodes of cost 1), node 0 is still assigned.
\<close>

theorem rrn_assigned_flag_survives_pass:
  "(case round_robin_half_queue_info
           (mk_sim 1 ''RRN_RRQ'' 1 [mk_node 1 4, mk_node 1 4] []
              [arrival URLLC_ARRIVAL 0 5 1] []) of
      Inl err \<Rightarrow> False
    | Inr s1 \<Rightarrow> map assigned (pool (Slices_URLLC s1)) = [True, False]
                 \<and> served (trace s1) = [arrival URLLC_ARRIVAL 0 5 1])"
  by (simp add: round_robin_half_queue_info_def grant_pass_def py_mod_def
        handle_send_queue_def input_defs)

end
